theory Spec2Isabelle
  imports Complex_Main
begin

section \<open>Masked arrays\<close>

text \<open>
  The notebook \<^verbatim>\<open>fjordeco-advection-py.ipynb\<close> computes on \<^verbatim>\<open>numpy.ma\<close> masked
  arrays of floats. An entry is modelled as a \<open>real option\<close>: \<open>None\<close> is a masked entry,
  \<open>Some x\<close> a valid one. Floats are idealised as reals. The data stored under a masked
  entry is never observed by the notebook (it is replaced by \<^verbatim>\<open>filled\<close>, skipped by
  \<^verbatim>\<open>mean\<close>, and stays masked through every arithmetic operation), so it is not modelled.

  \<^item> \<open>marr2\<close>: a two-dimensional masked array, \<open>u ! j ! i\<close> is \<^verbatim>\<open>u[j, i]\<close>;
  \<^item> \<open>marr3\<close>: a field with its three time slots, \<open>F ! j ! i ! s\<close> is \<^verbatim>\<open>F[j, i, s]\<close>;
  \<^item> \<open>arr2\<close>: a plain \<^verbatim>\<open>ndarray\<close> (the upwelling field \<^verbatim>\<open>w\<close>).
\<close>

type_synonym mval = "real option"
type_synonym marr2 = "mval list list"
type_synonym marr3 = "mval list list list"
type_synonym arr2 = "real list list"

text \<open>
  Binary arithmetic on masked entries: the result is masked where an operand is. A
  scalar operand is written \<open>Some c\<close>.
\<close>

fun ma_add :: "mval \<Rightarrow> mval \<Rightarrow> mval" where
  "ma_add (Some x) (Some y) = Some (x + y)"
| "ma_add _ _ = None"

fun ma_sub :: "mval \<Rightarrow> mval \<Rightarrow> mval" where
  "ma_sub (Some x) (Some y) = Some (x - y)"
| "ma_sub _ _ = None"

fun ma_mul :: "mval \<Rightarrow> mval \<Rightarrow> mval" where
  "ma_mul (Some x) (Some y) = Some (x * y)"
| "ma_mul _ _ = None"

text \<open>
  Division of masked arrays is a domained operation of \<^verbatim>\<open>numpy.ma\<close>: where the divisor
  is zero the result is masked instead of being infinite. (The library also masks a
  quotient whose divisor is smaller than the dividend by the factor of the smallest
  normal float; over the reals this tolerance is zero.)
\<close>

fun ma_div :: "mval \<Rightarrow> mval \<Rightarrow> mval" where
  "ma_div (Some x) (Some y) = (if y = 0 then None else Some (x / y))"
| "ma_div _ _ = None"

fun ma_neg :: "mval \<Rightarrow> mval" where
  "ma_neg (Some x) = Some (- x)"
| "ma_neg None = None"

fun ma_exp :: "mval \<Rightarrow> mval" where
  "ma_exp (Some x) = Some (exp x)"
| "ma_exp None = None"

text \<open>\<^verbatim>\<open>np.maximum(a, c)\<close> with a scalar \<open>c\<close>: masked entries stay masked.\<close>

fun ma_maximum :: "mval \<Rightarrow> real \<Rightarrow> mval" where
  "ma_maximum (Some x) c = Some (max x c)"
| "ma_maximum None c = None"

text \<open>\<^verbatim>\<open>a.filled(fill)\<close> on one entry.\<close>

fun filled :: "mval \<Rightarrow> real \<Rightarrow> real" where
  "filled (Some x) fill = x"
| "filled None fill = fill"

text \<open>
  \<^verbatim>\<open>a.mean()\<close> of a two-dimensional masked array: the mean of the valid entries, and the
  masked constant when there is none.
\<close>

definition valid_values :: "marr2 \<Rightarrow> real list" where
  "valid_values a = concat (map (List.map_filter (\<lambda>x. x)) a)"

definition ma_mean :: "marr2 \<Rightarrow> mval" where
  "ma_mean a =
     (let vs = valid_values a
      in if vs = [] then None else Some (sum_list vs / real (length vs)))"

text \<open>
  The mean is passed to \<^verbatim>\<open>filled\<close> as the fill value. When the mean is the masked
  constant (no valid entry at all), \<^verbatim>\<open>filled\<close> converts it to a float array and so
  reads the constant's data, which is \<open>0\<close>.
\<close>

fun fill_value :: "mval \<Rightarrow> real" where
  "fill_value (Some x) = x"
| "fill_value None = 0"

text \<open>\<^verbatim>\<open>F[:, :, s]\<close>: one time slot of a field.\<close>

definition slot3 :: "marr3 \<Rightarrow> nat \<Rightarrow> marr2" where
  "slot3 F s = map (map (\<lambda>c. c ! s)) F"

text \<open>A two-dimensional array has the shape \<open>ny \<times> nx\<close>.\<close>

definition shape2 :: "nat \<Rightarrow> nat \<Rightarrow> 'a list list \<Rightarrow> bool" where
  "shape2 ny nx a = (length a = ny \<and> list_all (\<lambda>row. length row = nx) a)"

section \<open>Errors, indexing, time grid\<close>

datatype error = IndexError | OverflowError | ValueError

text \<open>\<^verbatim>\<open>int(x)\<close> on a float truncates towards zero.\<close>

definition py_int :: "real \<Rightarrow> int" where
  "py_int x = (if 0 \<le> x then \<lfloor>x\<rfloor> else \<lceil>x\<rceil>)"

text \<open>
  Indexing the first axis of an array with an integer: a negative index counts from the
  end, an index out of range raises \<^verbatim>\<open>IndexError\<close>.
\<close>

definition np_index :: "'a list \<Rightarrow> int \<Rightarrow> error + 'a" where
  "np_index xs k =
     (let n = int (length xs)
      in if 0 \<le> k \<and> k < n then Inr (xs ! nat k)
         else if - n \<le> k \<and> k < 0 then Inr (xs ! nat (n + k))
         else Inl IndexError)"

text \<open>\<^verbatim>\<open>np.arange(start, stop, step)\<close> for a positive step.\<close>

definition np_arange :: "real \<Rightarrow> real \<Rightarrow> real \<Rightarrow> real list" where
  "np_arange start stop step =
     map (\<lambda>k. start + real k * step) [0..<nat \<lceil>(stop - start) / step\<rceil>]"

text \<open>\<^verbatim>\<open>np.diff(xs).mean()\<close>, the forcing sample interval.\<close>

definition np_diff :: "real list \<Rightarrow> real list" where
  "np_diff xs = map2 (\<lambda>a b. b - a) xs (tl xs)"

definition np_mean :: "real list \<Rightarrow> real" where
  "np_mean xs = sum_list xs / real (length xs)"

section \<open>Globals of the notebook, parameters of the model, state\<close>

text \<open>
  The globals that \<^verbatim>\<open>npz\<close> reads. \<^verbatim>\<open>idx\<close> and \<^verbatim>\<open>idy\<close> are scalars: the notebook
  multiplies them with arrays of the interior shape \<open>(Ny-2, Nx-2)\<close>, which only
  broadcasts for a scalar. The forcing file itself is not part of the repository.
\<close>

record env =
  frc_time :: "real list"
  frc_dt :: real
  Ny :: nat
  Nx :: nat
  idx :: real
  idy :: real
  frc_u :: "marr2 list"
  frc_v :: "marr2 list"
  min_N :: real
  min_P :: real
  min_Z :: real
  min_B :: real

text \<open>The keyword arguments of \<^verbatim>\<open>npz\<close>.\<close>

record params =
  Vm :: real
  ks :: real
  m :: real
  alpha :: real
  gamma :: real
  Rm :: real
  ivlev :: real
  g :: real
  At :: real

text \<open>What the loop of \<^verbatim>\<open>npz\<close> mutates: the four fields, \<^verbatim>\<open>w\<close> and the slot counters.\<close>

record state =
  N :: marr3
  P :: marr3
  Z :: marr3
  B :: marr3
  w :: arr2
  nprev :: nat
  ncur :: nat
  nnext :: nat

definition Navg :: nat where
  "Navg = 24"

definition dt :: real where
  "dt = 600"

text \<open>``Convert parameters to seconds''.\<close>

definition to_seconds :: "params \<Rightarrow> params" where
  "to_seconds p =
     p\<lparr>Vm := Vm p / 86400, m := m p / 86400, alpha := alpha p / 86400,
       Rm := Rm p / 86400, g := g p / 86400\<rparr>"

section \<open>Forcing interpolation\<close>

definition interp :: "real \<Rightarrow> marr2 \<Rightarrow> marr2 \<Rightarrow> marr2" where
  "interp fr a b =
     map2 (map2 (\<lambda>x y. ma_add (ma_mul (Some (1 - fr)) x) (ma_mul (Some fr) y))) a b"

text \<open>
  \<^verbatim>\<open>fidx = t / frc_dt; frac = fidx - int(fidx); fidx = int(fidx)\<close>. With
  \<^verbatim>\<open>frc_dt = 0\<close> the quotient is infinite or not a number and \<^verbatim>\<open>int\<close> raises.
\<close>

definition forcing_index :: "env \<Rightarrow> real \<Rightarrow> error + (int \<times> real)" where
  "forcing_index e t =
     (if frc_dt e = 0 then Inl (if t = 0 then ValueError else OverflowError)
      else let fidx = t / frc_dt e; k = py_int fidx
           in Inr (k, fidx - of_int k))"

definition forcing :: "env \<Rightarrow> real \<Rightarrow> error + (marr2 \<times> marr2)" where
  "forcing e t =
     (case forcing_index e t of
        Inl err \<Rightarrow> Inl err
      | Inr (k, fr) \<Rightarrow>
          (case (np_index (frc_u e) k, np_index (frc_u e) (k + 1),
                 np_index (frc_v e) k, np_index (frc_v e) (k + 1)) of
             (Inr u0, Inr u1, Inr v0, Inr v1) \<Rightarrow> Inr (interp fr u0 u1, interp fr v0 v1)
           | _ \<Rightarrow> Inl IndexError))"

section \<open>One step of the integrator\<close>

text \<open>
  The slices \<^verbatim>\<open>i = j = np.s_[1:-1]\<close>, \<^verbatim>\<open>ip = jp = np.s_[2:]\<close> and
  \<^verbatim>\<open>im = jm = np.s_[0:-2]\<close> align, for every interior position \<open>(j, i)\<close>, the entries
  \<open>(j, i + 1)\<close> (\<^verbatim>\<open>[j, ip]\<close>), \<open>(j, i - 1)\<close> (\<^verbatim>\<open>[j, im]\<close>), \<open>(j + 1, i)\<close>
  (\<^verbatim>\<open>[jp, i]\<close>), \<open>(j - 1, i)\<close> (\<^verbatim>\<open>[jm, i]\<close>) and \<open>(j - 1, i - 1)\<close>
  (\<^verbatim>\<open>[jm, im]\<close>). The array expressions of the notebook are written per position.
\<close>

definition interior :: "nat \<Rightarrow> nat \<Rightarrow> bool" where
  "interior n k = (1 \<le> k \<and> k + 1 < n)"

subsection \<open>Up/downwelling\<close>

definition w_cell :: "env \<Rightarrow> marr2 \<Rightarrow> marr2 \<Rightarrow> nat \<Rightarrow> nat \<Rightarrow> real" where
  "w_cell e u v j i =
     (let ufill = fill_value (ma_mean u); vfill = fill_value (ma_mean v)
      in idx e * (filled (u ! j ! i) ufill - filled (u ! j ! (i - 1)) ufill) +
         idy e * (filled (v ! j ! i) vfill - filled (v ! (j - 1) ! i) vfill))"

text \<open>\<^verbatim>\<open>w[j, i] = ...\<close> followed by \<^verbatim>\<open>w /= 10\<close> on the whole array.\<close>

definition upwelling :: "env \<Rightarrow> marr2 \<Rightarrow> marr2 \<Rightarrow> arr2 \<Rightarrow> arr2" where
  "upwelling e u v wa =
     map (\<lambda>j. map (\<lambda>i. (if interior (length wa) j \<and> interior (length (wa ! j)) i
                          then w_cell e u v j i else wa ! j ! i) / 10)
                 [0..<length (wa ! j)])
         [0..<length wa]"

subsection \<open>Biological terms, at the current slot\<close>

definition uptake :: "params \<Rightarrow> state \<Rightarrow> nat \<Rightarrow> nat \<Rightarrow> mval" where
  "uptake p s j i =
     ma_div (ma_mul (ma_mul (Some (Vm p)) (P s ! j ! i ! ncur s)) (N s ! j ! i ! ncur s))
            (ma_add (Some (ks p)) (N s ! j ! i ! ncur s))"

definition pmortality :: "params \<Rightarrow> state \<Rightarrow> nat \<Rightarrow> nat \<Rightarrow> mval" where
  "pmortality p s j i = ma_mul (Some (m p)) (P s ! j ! i ! ncur s)"

definition graze :: "params \<Rightarrow> state \<Rightarrow> nat \<Rightarrow> nat \<Rightarrow> mval" where
  "graze p s j i =
     ma_mul
       (ma_mul (ma_mul (ma_mul (Some (ivlev p)) (P s ! j ! i ! ncur s)) (Some (Rm p)))
               (ma_sub (Some 1) (ma_exp (ma_mul (Some (- ivlev p)) (P s ! j ! i ! ncur s)))))
       (Z s ! j ! i ! ncur s)"

definition zmortality :: "params \<Rightarrow> state \<Rightarrow> nat \<Rightarrow> nat \<Rightarrow> mval" where
  "zmortality p s j i = ma_mul (Some (g p)) (Z s ! j ! i ! ncur s)"

definition binput :: "params \<Rightarrow> state \<Rightarrow> nat \<Rightarrow> nat \<Rightarrow> mval" where
  "binput p s j i = ma_mul (Some (alpha p)) (P s ! j ! i ! ncur s)"

definition upwell :: "arr2 \<Rightarrow> state \<Rightarrow> nat \<Rightarrow> nat \<Rightarrow> mval" where
  "upwell wa s j i =
     ma_mul (Some (wa ! j ! i)) (ma_sub (N s ! j ! i ! ncur s) (B s ! j ! i ! ncur s))"

subsection \<open>Advection and diffusion of a field \<open>F\<close>\<close>

text \<open>
  \<open>c\<close> is the current slot, \<open>pr\<close> the previous one, \<open>fill\<close> the fill value of the field.
  The advection terms keep the mask of the velocity; the diffusion terms are built from
  filled arrays only.
\<close>

definition zonal :: "env \<Rightarrow> marr2 \<Rightarrow> marr3 \<Rightarrow> real \<Rightarrow> nat \<Rightarrow> nat \<Rightarrow> nat \<Rightarrow> mval" where
  "zonal e u F fill c j i =
     ma_mul (ma_mul (Some (0.5 * idx e)) (u ! j ! i))
            (Some (filled (F ! j ! (i + 1) ! c) fill - filled (F ! j ! (i - 1) ! c) fill))"

definition meridional :: "env \<Rightarrow> marr2 \<Rightarrow> marr3 \<Rightarrow> real \<Rightarrow> nat \<Rightarrow> nat \<Rightarrow> nat \<Rightarrow> mval" where
  "meridional e v F fill c j i =
     ma_mul (ma_mul (Some (0.5 * idy e)) (v ! j ! i))
            (Some (filled (F ! (j + 1) ! i ! c) fill - filled (F ! (j - 1) ! i ! c) fill))"

definition diffx :: "env \<Rightarrow> marr3 \<Rightarrow> real \<Rightarrow> nat \<Rightarrow> nat \<Rightarrow> nat \<Rightarrow> real" where
  "diffx e F fill pr j i =
     (idx e * idx e) *
       (filled (F ! j ! (i + 1) ! pr) fill - 2 * filled (F ! j ! i ! pr) fill +
        filled (F ! j ! (i - 1) ! pr) fill)"

text \<open>The meridional diffusion of \<^verbatim>\<open>N\<close>: the last neighbour is \<^verbatim>\<open>N[jm, i, nprev]\<close>.\<close>

definition diffy_N :: "env \<Rightarrow> marr3 \<Rightarrow> real \<Rightarrow> nat \<Rightarrow> nat \<Rightarrow> nat \<Rightarrow> real" where
  "diffy_N e F fill pr j i =
     (idy e * idy e) *
       (filled (F ! (j + 1) ! i ! pr) fill - 2 * filled (F ! j ! i ! pr) fill +
        filled (F ! (j - 1) ! i ! pr) fill)"

text \<open>
  The meridional diffusion of \<^verbatim>\<open>P\<close> and of \<^verbatim>\<open>Z\<close>: the last neighbour is
  \<^verbatim>\<open>P[jm, im, nprev]\<close>, respectively \<^verbatim>\<open>Z[jm, im, nprev]\<close>.
\<close>

definition diffy_PZ :: "env \<Rightarrow> marr3 \<Rightarrow> real \<Rightarrow> nat \<Rightarrow> nat \<Rightarrow> nat \<Rightarrow> real" where
  "diffy_PZ e F fill pr j i =
     (idy e * idy e) *
       (filled (F ! (j + 1) ! i ! pr) fill - 2 * filled (F ! j ! i ! pr) fill +
        filled (F ! (j - 1) ! (i - 1) ! pr) fill)"

subsection \<open>Right-hand sides of the four assignments\<close>

definition N_rhs :: "env \<Rightarrow> params \<Rightarrow> marr2 \<Rightarrow> marr2 \<Rightarrow> arr2 \<Rightarrow> state \<Rightarrow> nat \<Rightarrow> nat \<Rightarrow> mval" where
  "N_rhs e p u v wa s j i =
     (let nfill = fill_value (ma_mean (slot3 (N s) (ncur s)))
      in ma_add (N s ! j ! i ! nprev s)
           (ma_mul (Some (2 * dt))
             (ma_add
               (ma_add
                 (ma_add
                   (ma_sub
                     (ma_add
                       (ma_sub
                         (ma_sub (ma_neg (zonal e u (N s) nfill (ncur s) j i))
                                 (meridional e v (N s) nfill (ncur s) j i))
                         (upwell wa s j i))
                       (Some (At p * (diffx e (N s) nfill (nprev s) j i +
                                      diffy_N e (N s) nfill (nprev s) j i))))
                     (uptake p s j i))
                   (pmortality p s j i))
                 (zmortality p s j i))
               (ma_mul (Some (gamma p)) (graze p s j i)))))"

definition P_rhs :: "env \<Rightarrow> params \<Rightarrow> marr2 \<Rightarrow> marr2 \<Rightarrow> state \<Rightarrow> nat \<Rightarrow> nat \<Rightarrow> mval" where
  "P_rhs e p u v s j i =
     (let pfill = fill_value (ma_mean (slot3 (P s) (ncur s)))
      in ma_add (P s ! j ! i ! nprev s)
           (ma_mul (Some (2 * dt))
             (ma_sub
               (ma_sub
                 (ma_sub
                   (ma_add
                     (ma_add
                       (ma_sub (ma_neg (zonal e u (P s) pfill (ncur s) j i))
                               (meridional e v (P s) pfill (ncur s) j i))
                       (Some (At p * (diffx e (P s) pfill (nprev s) j i +
                                      diffy_PZ e (P s) pfill (nprev s) j i))))
                     (uptake p s j i))
                   (pmortality p s j i))
                 (graze p s j i))
               (binput p s j i))))"

definition Z_rhs :: "env \<Rightarrow> params \<Rightarrow> marr2 \<Rightarrow> marr2 \<Rightarrow> state \<Rightarrow> nat \<Rightarrow> nat \<Rightarrow> mval" where
  "Z_rhs e p u v s j i =
     (let zfill = fill_value (ma_mean (slot3 (Z s) (ncur s)))
      in ma_add (Z s ! j ! i ! nprev s)
           (ma_mul (Some (2 * dt))
             (ma_sub
               (ma_add
                 (ma_add
                   (ma_sub (ma_neg (zonal e u (Z s) zfill (ncur s) j i))
                           (meridional e v (Z s) zfill (ncur s) j i))
                   (Some (At p * (diffx e (Z s) zfill (nprev s) j i +
                                  diffy_PZ e (Z s) zfill (nprev s) j i))))
                 (ma_mul (Some (1 - gamma p)) (graze p s j i)))
               (zmortality p s j i))))"

definition B_rhs :: "params \<Rightarrow> arr2 \<Rightarrow> state \<Rightarrow> nat \<Rightarrow> nat \<Rightarrow> mval" where
  "B_rhs p wa s j i =
     ma_add (B s ! j ! i ! nprev s)
       (ma_mul (Some (2 * dt)) (ma_add (upwell wa s j i) (binput p s j i)))"

text \<open>
  \<^verbatim>\<open>F[j, i, nnext] = rhs\<close>: the slot \<open>nx\<close> of every interior position is overwritten,
  value and mask; the outermost ring is not part of the slice.
\<close>

definition set_interior :: "(nat \<Rightarrow> nat \<Rightarrow> mval) \<Rightarrow> nat \<Rightarrow> marr3 \<Rightarrow> marr3" where
  "set_interior rhs nx F =
     map (\<lambda>j. map (\<lambda>i. if interior (length F) j \<and> interior (length (F ! j)) i
                         then (F ! j ! i)[nx := rhs j i] else F ! j ! i)
                 [0..<length (F ! j)])
         [0..<length F]"

text \<open>
  The update phase. Every right-hand side reads the state as it was before the phase:
  the biological terms and \<^verbatim>\<open>upwell\<close> are computed before the first assignment, and
  each assignment writes one field and reads only that field and those terms.
\<close>

definition integrate :: "env \<Rightarrow> params \<Rightarrow> marr2 \<Rightarrow> marr2 \<Rightarrow> state \<Rightarrow> state" where
  "integrate e p u v s =
     (let wa = upwelling e u v (w s)
      in s\<lparr>w := wa,
           N := set_interior (N_rhs e p u v wa s) (nnext s) (N s),
           P := set_interior (P_rhs e p u v s) (nnext s) (P s),
           Z := set_interior (Z_rhs e p u v s) (nnext s) (Z s),
           B := set_interior (B_rhs p wa s) (nnext s) (B s)\<rparr>)"

subsection \<open>Boundary conditions and averaging\<close>

text \<open>\<^verbatim>\<open>F[:] = np.maximum(F[:], lo)\<close> on all entries of all slots.\<close>

definition clamp :: "real \<Rightarrow> marr3 \<Rightarrow> marr3" where
  "clamp lo F = map (map (map (\<lambda>x. ma_maximum x lo))) F"

definition boundary :: "env \<Rightarrow> state \<Rightarrow> state" where
  "boundary e s =
     s\<lparr>N := clamp (min_N e) (N s), P := clamp (min_P e) (P s),
       Z := clamp (min_Z e) (Z s), B := clamp (min_B e) (B s)\<rparr>"

text \<open>
  \<^verbatim>\<open>F[:, :, nnext] = 0.5 * (F[:, :, nnext] + F[:, :, ncur])\<close> and then
  \<^verbatim>\<open>F[:, :, ncur] = 0.5 * (F[:, :, nprev] + F[:, :, ncur])\<close>, on one position.
\<close>

definition average_cell :: "nat \<Rightarrow> nat \<Rightarrow> nat \<Rightarrow> mval list \<Rightarrow> mval list" where
  "average_cell pr c nx cell =
     (let cell1 = cell[nx := ma_mul (Some 0.5) (ma_add (cell ! nx) (cell ! c))]
      in cell1[c := ma_mul (Some 0.5) (ma_add (cell1 ! pr) (cell1 ! c))])"

definition average :: "nat \<Rightarrow> nat \<Rightarrow> nat \<Rightarrow> marr3 \<Rightarrow> marr3" where
  "average pr c nx F = map (map (average_cell pr c nx)) F"

text \<open>\<^verbatim>\<open>if not np.mod(n, Navg):\<close> the three fields \<^verbatim>\<open>N\<close>, \<^verbatim>\<open>P\<close>, \<^verbatim>\<open>Z\<close> are averaged.\<close>

definition averaging :: "nat \<Rightarrow> state \<Rightarrow> state" where
  "averaging n s =
     (if n mod Navg = 0
      then s\<lparr>N := average (nprev s) (ncur s) (nnext s) (N s),
             P := average (nprev s) (ncur s) (nnext s) (P s),
             Z := average (nprev s) (ncur s) (nnext s) (Z s)\<rparr>
      else s)"

subsection \<open>The loop body up to \<^verbatim>\<open>yield\<close>, and the rotation after it\<close>

text \<open>
  The first statement after the interpolation that combines the velocity with an
  array of the grid is \<^verbatim>\<open>w[j, i] = ...\<close>, where \<^verbatim>\<open>w\<close> is \<^verbatim>\<open>np.zeros([Ny, Nx])\<close>:
  with velocity samples of another shape than \<open>Ny \<times> Nx\<close> the assignment raises
  \<^verbatim>\<open>ValueError\<close> (the shapes cannot be broadcast) and the step ends there. A sample
  whose interior is a single row or column would be stretched by the library instead;
  such a sample is counted among the mis-shaped ones here.
\<close>

definition npz_step :: "env \<Rightarrow> params \<Rightarrow> nat \<Rightarrow> real \<Rightarrow> state \<Rightarrow> error + state" where
  "npz_step e p n t s =
     (case forcing e t of
        Inl err \<Rightarrow> Inl err
      | Inr (u, v) \<Rightarrow>
          if shape2 (Ny e) (Nx e) u \<and> shape2 (Ny e) (Nx e) v
          then Inr (averaging n (boundary e (integrate e p u v s)))
          else Inl ValueError)"

definition cycle :: "state \<Rightarrow> state" where
  "cycle s = s\<lparr>nprev := ncur s, ncur := nnext s, nnext := nprev s\<rparr>"

section \<open>The generator\<close>

text \<open>
  \<^verbatim>\<open>npz\<close> is a generator: it yields once per step, after the averaging, and rotates the
  slots when it is resumed. It is modelled by the list of what it yields: the state at
  each \<^verbatim>\<open>yield\<close>, or the exception that ends it.
\<close>

fun npz_trace :: "env \<Rightarrow> params \<Rightarrow> (nat \<times> real) list \<Rightarrow> state \<Rightarrow> (error + state) list" where
  "npz_trace e p [] s = []"
| "npz_trace e p ((n, t) # rest) s =
     (case npz_step e p n t s of
        Inl err \<Rightarrow> [Inl err]
      | Inr s' \<Rightarrow> Inr s' # npz_trace e p rest (cycle s'))"

text \<open>\<^verbatim>\<open>times = np.arange(frc_time[0], frc_time[-1], dt)\<close>.\<close>

definition times :: "env \<Rightarrow> real list" where
  "times e = np_arange (hd (frc_time e)) (last (frc_time e)) dt"

text \<open>
  The state when the generator starts: the arrays passed in, \<^verbatim>\<open>w = np.zeros([Ny, Nx])\<close>
  and \<^verbatim>\<open>nprev, ncur, nnext = 0, 1, 2\<close>.
\<close>

definition init_state :: "env \<Rightarrow> marr3 \<Rightarrow> marr3 \<Rightarrow> marr3 \<Rightarrow> marr3 \<Rightarrow> state" where
  "init_state e N0 P0 Z0 B0 =
     \<lparr>N = N0, P = P0, Z = Z0, B = B0, w = replicate (Ny e) (replicate (Nx e) 0),
      nprev = 0, ncur = 1, nnext = 2\<rparr>"

definition npz :: "env \<Rightarrow> params \<Rightarrow> marr3 \<Rightarrow> marr3 \<Rightarrow> marr3 \<Rightarrow> marr3 \<Rightarrow> (error + state) list" where
  "npz e p N0 P0 Z0 B0 =
     (if frc_time e = [] then [Inl IndexError]
      else npz_trace e (to_seconds p) (enumerate 0 (times e)) (init_state e N0 P0 Z0 B0))"

section \<open>Initial fields\<close>

text \<open>
  The notebook creates each field masked where the land/sea mask is \<open>0\<close>
  (\<^verbatim>\<open>np.ma.masked_where(mask3 == 0, ...)\<close>), then writes one value into all three slots
  at once (\<^verbatim>\<open>N.data[:] = N0 * 1.2\<close>) and another into the block of the first \<open>20\<close>
  rows from column \<open>10\<close> on (\<^verbatim>\<open>N.data[:20,10:,:] = N0\<close>).
\<close>

definition initial_field :: "int list list \<Rightarrow> real \<Rightarrow> real \<Rightarrow> marr3" where
  "initial_field msk outer inner =
     map (\<lambda>j. map (\<lambda>i. if msk ! j ! i = 0 then [None, None, None]
                         else replicate 3 (Some (if j < 20 \<and> 10 \<le> i then inner else outer)))
                 [0..<length (msk ! j)])
         [0..<length msk]"

section \<open>Predicates used in the statements\<close>

text \<open>
  The arrays of the notebook have fixed shapes: the fields are \<open>Ny \<times> Nx \<times> 3\<close>, \<^verbatim>\<open>w\<close> is
  \<open>Ny \<times> Nx\<close>. Lists do not carry their shape, so it is a hypothesis of the theorems.
\<close>

definition shape3 :: "nat \<Rightarrow> nat \<Rightarrow> marr3 \<Rightarrow> bool" where
  "shape3 ny nx F =
     (length F = ny \<and> list_all (\<lambda>row. length row = nx \<and> list_all (\<lambda>c. length c = 3) row) F)"

text \<open>The slot counters are a rotation of \<open>0, 1, 2\<close>.\<close>

definition slots_ok :: "state \<Rightarrow> bool" where
  "slots_ok s = (nprev s < 3 \<and> ncur s < 3 \<and> nnext s < 3 \<and> distinct [nprev s, ncur s, nnext s])"

definition wf_state :: "env \<Rightarrow> state \<Rightarrow> bool" where
  "wf_state e s =
     (shape3 (Ny e) (Nx e) (N s) \<and> shape3 (Ny e) (Nx e) (P s) \<and>
      shape3 (Ny e) (Nx e) (Z s) \<and> shape3 (Ny e) (Nx e) (B s) \<and>
      shape2 (Ny e) (Nx e) (w s) \<and> slots_ok s)"

text \<open>An entry is at or above a floor: a masked entry has no value to compare.\<close>

definition above :: "real \<Rightarrow> mval \<Rightarrow> bool" where
  "above lo x = (case x of None \<Rightarrow> True | Some y \<Rightarrow> lo \<le> y)"

text \<open>The outermost ring of the grid: first and last row, first and last column.\<close>

definition ring :: "nat \<Rightarrow> nat \<Rightarrow> nat \<Rightarrow> nat \<Rightarrow> bool" where
  "ring ny nx j i = (j < ny \<and> i < nx \<and> (j = 0 \<or> Suc j = ny \<or> i = 0 \<or> Suc i = nx))"

text \<open>
  A position as the initialisation of the notebook leaves it (\<^verbatim>\<open>N.data[:] = ...\<close> writes
  all three slots at once): the three slots hold the same entry, at or above the floor.
\<close>

definition settled :: "real \<Rightarrow> mval list \<Rightarrow> bool" where
  "settled lo cell =
     (length cell = 3 \<and> cell ! 1 = cell ! 0 \<and> cell ! 2 = cell ! 0 \<and> above lo (cell ! 0))"

text \<open>A velocity sample that is zero at every position.\<close>

definition zero_grid :: "nat \<Rightarrow> nat \<Rightarrow> marr2" where
  "zero_grid ny nx = replicate ny (replicate nx (Some 0))"

text \<open>
  A position at rest: in each of the four fields the three slots hold the same entry, at
  or above the floor of the field, and the four fields are masked together.
\<close>

definition calm :: "env \<Rightarrow> marr3 \<Rightarrow> marr3 \<Rightarrow> marr3 \<Rightarrow> marr3 \<Rightarrow> nat \<Rightarrow> nat \<Rightarrow> bool" where
  "calm e N0 P0 Z0 B0 j i =
     (settled (min_N e) (N0 ! j ! i) \<and> settled (min_P e) (P0 ! j ! i) \<and>
      settled (min_Z e) (Z0 ! j ! i) \<and> settled (min_B e) (B0 ! j ! i) \<and>
      (P0 ! j ! i ! 0 = None) = (N0 ! j ! i ! 0 = None) \<and>
      (Z0 ! j ! i ! 0 = None) = (N0 ! j ! i ! 0 = None) \<and>
      (B0 ! j ! i ! 0 = None) = (N0 ! j ! i ! 0 = None))"

definition all_calm :: "env \<Rightarrow> marr3 \<Rightarrow> marr3 \<Rightarrow> marr3 \<Rightarrow> marr3 \<Rightarrow> bool" where
  "all_calm e N0 P0 Z0 B0 =
     list_all (\<lambda>j. list_all (\<lambda>i. calm e N0 P0 Z0 B0 j i) [0..<Nx e]) [0..<Ny e]"

text \<open>Every forcing sample is zero at every position.\<close>

definition zero_velocity :: "env \<Rightarrow> bool" where
  "zero_velocity e =
     (list_all (\<lambda>u. u = zero_grid (Ny e) (Nx e)) (frc_u e) \<and>
      list_all (\<lambda>v. v = zero_grid (Ny e) (Nx e)) (frc_v e))"

text \<open>
  A valid (not masked) entry, and a position of open water: valid in all three slots of
  the four initial fields, with a valid velocity in every forcing sample.
\<close>

definition valid :: "mval \<Rightarrow> bool" where
  "valid x = (case x of None \<Rightarrow> False | Some y \<Rightarrow> True)"



section \<open>Example data\<close>

text \<open>
  A \<open>3 \<times> 3\<close> grid, whose only interior position is \<open>(1, 1)\<close>, with three forcing samples
  of zero velocity at the times \<open>0\<close>, \<open>600\<close> and \<open>1200\<close>.
\<close>

definition ex_env :: env where
  "ex_env = \<lparr>frc_time = [0, 600, 1200], frc_dt = 600, Ny = 3, Nx = 3,
             idx = 1 / 1000, idy = 1 / 1000,
             frc_u = [zero_grid 3 3, zero_grid 3 3, zero_grid 3 3],
             frc_v = [zero_grid 3 3, zero_grid 3 3, zero_grid 3 3],
             min_N = 1 / 100000, min_P = 1 / 100000, min_Z = 1 / 100000, min_B = 1 / 100000\<rparr>"

text \<open>No biology, default mixing \<^verbatim>\<open>At=20\<close>.\<close>

definition ex_still :: params where
  "ex_still = \<lparr>Vm = 0, ks = 1, m = 0, alpha = 0, gamma = 3 / 10, Rm = 0, ivlev = 1, g = 0, At = 20\<rparr>"

definition sea :: "real \<Rightarrow> real \<Rightarrow> real \<Rightarrow> mval list" where
  "sea a b c = [Some a, Some b, Some c]"

definition land :: "mval list" where
  "land = [None, None, None]"

text \<open>Initial fields: the three slots equal, \<^verbatim>\<open>N\<close> with a step in the first column.\<close>

definition ex_N0 :: marr3 where
  "ex_N0 = [[sea 1 1 1, sea 1 1 1, sea 1 1 1],
            [sea 2 2 2, sea 1 1 1, sea 1 1 1],
            [sea 1 1 1, sea 1 1 1, land]]"

definition ex_F0 :: marr3 where
  "ex_F0 = [[sea 1 1 1, sea 1 1 1, sea 1 1 1],
            [sea 1 1 1, sea 1 1 1, sea 1 1 1],
            [sea 1 1 1, sea 1 1 1, land]]"

text \<open>What the generator yields first on these inputs.\<close>

definition ex_first :: state where
  "ex_first = averaging 0 (boundary ex_env
     (integrate ex_env (to_seconds ex_still) (zero_grid 3 3) (zero_grid 3 3)
        (init_state ex_env ex_N0 ex_F0 ex_F0 ex_F0)))"

text \<open>
  A state in the middle of a run, with different values in the three slots, a land
  position west of the interior position, rates per second, and a velocity field that
  is masked on land.
\<close>

definition ex_bio :: params where
  "ex_bio = \<lparr>Vm = 1 / 1000, ks = 1, m = 1 / 2000, alpha = 1 / 4000, gamma = 3 / 10,
             Rm = 1 / 500, ivlev = 1, g = 1 / 5000, At = 20\<rparr>"

definition ex_u :: marr2 where
  "ex_u = [[Some (1 / 10), Some (1 / 10), Some (1 / 10)],
           [None, Some (1 / 5), Some (1 / 10)],
           [Some (1 / 10), Some (1 / 10), Some (1 / 10)]]"

definition ex_v :: marr2 where
  "ex_v = [[Some (1 / 20), Some (1 / 20), Some (1 / 20)],
           [None, Some (1 / 20), Some (1 / 20)],
           [Some (1 / 20), Some (1 / 20), Some (1 / 20)]]"

definition ex_state :: state where
  "ex_state =
     \<lparr>N = [[sea 1 2 3, sea 1 2 3, sea 1 2 3],
            [land, sea 1 2 3, sea 4 5 6],
            [sea 1 2 3, sea 1 2 3, sea 1 2 3]],
      P = [[sea 1 1 1, sea 1 1 1, sea 1 1 1],
            [land, sea 1 1 1, sea 1 1 1],
            [sea 1 1 1, sea 1 1 1, sea 1 1 1]],
      Z = [[sea 1 1 1, sea 1 1 1, sea 1 1 1],
            [land, sea 1 1 1, sea 1 1 1],
            [sea 1 1 1, sea 1 1 1, sea 1 1 1]],
      B = [[sea 1 3 5, sea 1 3 5, sea 1 3 5],
            [land, sea 1 3 5, sea 1 3 5],
            [sea 1 3 5, sea 1 3 5, sea 1 3 5]],
      w = replicate 3 (replicate 3 0),
      nprev = 0, ncur = 1, nnext = 2\<rparr>"

text \<open>
  The same data in \<^verbatim>\<open>N\<close>, \<^verbatim>\<open>P\<close> and \<^verbatim>\<open>Z\<close>, with one different value at the
  south-west corner \<open>(0, 0)\<close>.
\<close>

definition ex_skew :: state where
  "ex_skew =
     \<lparr>N = [[sea 5 5 5, sea 1 1 1, sea 1 1 1],
            [sea 1 1 1, sea 1 1 1, sea 1 1 1],
            [sea 1 1 1, sea 1 1 1, sea 1 1 1]],
      P = [[sea 5 5 5, sea 1 1 1, sea 1 1 1],
            [sea 1 1 1, sea 1 1 1, sea 1 1 1],
            [sea 1 1 1, sea 1 1 1, sea 1 1 1]],
      Z = [[sea 5 5 5, sea 1 1 1, sea 1 1 1],
            [sea 1 1 1, sea 1 1 1, sea 1 1 1],
            [sea 1 1 1, sea 1 1 1, sea 1 1 1]],
      B = [[sea 1 1 1, sea 1 1 1, sea 1 1 1],
            [sea 1 1 1, sea 1 1 1, sea 1 1 1],
            [sea 1 1 1, sea 1 1 1, sea 1 1 1]],
      w = replicate 3 (replicate 3 0),
      nprev = 0, ncur = 1, nnext = 2\<rparr>"

text \<open>
  A forcing series whose first timestamp is not zero, with three different samples.
\<close>

definition const_grid :: "real \<Rightarrow> marr2" where
  "const_grid x = replicate 3 (replicate 3 (Some x))"

definition ex_late :: env where
  "ex_late = \<lparr>frc_time = [600, 1200, 1800], frc_dt = 600, Ny = 3, Nx = 3,
              idx = 1 / 1000, idy = 1 / 1000,
              frc_u = [const_grid 0, const_grid (1 / 10), const_grid (2 / 10)],
              frc_v = [const_grid 0, const_grid (1 / 10), const_grid (2 / 10)],
              min_N = 1 / 100000, min_P = 1 / 100000, min_Z = 1 / 100000, min_B = 1 / 100000\<rparr>"

text \<open>No biology and no mixing, and what the generator yields first with it.\<close>

definition ex_nomix :: params where
  "ex_nomix = \<lparr>Vm = 0, ks = 1, m = 0, alpha = 0, gamma = 3 / 10, Rm = 0, ivlev = 1, g = 0, At = 0\<rparr>"

definition ex_steady :: state where
  "ex_steady = averaging 0 (boundary ex_env
     (integrate ex_env (to_seconds ex_nomix) (zero_grid 3 3) (zero_grid 3 3)
        (init_state ex_env ex_N0 ex_F0 ex_F0 ex_F0)))"



text \<open>What the generator yields second on \<open>ex_N0\<close>: step \<open>1\<close> is not averaged.\<close>

definition ex_second :: state where
  "ex_second = boundary ex_env
     (integrate ex_env (to_seconds ex_still) (zero_grid 3 3) (zero_grid 3 3) (cycle ex_first))"

section \<open>Shapes, and what each phase does to one position\<close>

lemma shape3_nth:
  assumes "shape3 ny nx F" "j < ny" "i < nx"
  shows "length F = ny" "length (F ! j) = nx" "length (F ! j ! i) = 3"
  using assms by (simp_all add: shape3_def list_all_length)

lemma shape3_intro:
  assumes "length F = ny" "\<And>j. j < ny \<Longrightarrow> length (F ! j) = nx"
    "\<And>j i. j < ny \<Longrightarrow> i < nx \<Longrightarrow> length (F ! j ! i) = 3"
  shows "shape3 ny nx F"
  using assms by (auto simp: shape3_def list_all_length)

lemma set_interior_length [simp]: "length (set_interior rhs nx F) = length F"
  by (simp add: set_interior_def)

lemma set_interior_row_length [simp]:
  "j < length F \<Longrightarrow> length (set_interior rhs nx F ! j) = length (F ! j)"
  by (simp add: set_interior_def)

lemma set_interior_nth:
  "j < length F \<Longrightarrow> i < length (F ! j) \<Longrightarrow>
   set_interior rhs nx F ! j ! i =
     (if interior (length F) j \<and> interior (length (F ! j)) i
      then (F ! j ! i)[nx := rhs j i] else F ! j ! i)"
  by (simp add: set_interior_def)

lemma set_interior_shape:
  assumes "shape3 ny nx F"
  shows "shape3 ny nx (set_interior rhs k F)"
proof (rule shape3_intro)
  show "length (set_interior rhs k F) = ny"
    using assms by (simp add: shape3_def)
next
  fix j assume "j < ny"
  then show "length (set_interior rhs k F ! j) = nx"
    using assms by (simp add: shape3_def list_all_length)
next
  fix j i assume "j < ny" "i < nx"
  then show "length (set_interior rhs k F ! j ! i) = 3"
    using assms by (simp add: shape3_def list_all_length set_interior_nth)
qed

lemma clamp_length [simp]: "length (clamp lo F) = length F"
  by (simp add: clamp_def)

lemma clamp_row_length [simp]: "j < length F \<Longrightarrow> length (clamp lo F ! j) = length (F ! j)"
  by (simp add: clamp_def)

lemma clamp_cell:
  "j < length F \<Longrightarrow> i < length (F ! j) \<Longrightarrow>
   clamp lo F ! j ! i = map (\<lambda>x. ma_maximum x lo) (F ! j ! i)"
  by (simp add: clamp_def)

lemma clamp_shape:
  assumes "shape3 ny nx F"
  shows "shape3 ny nx (clamp lo F)"
proof (rule shape3_intro)
  show "length (clamp lo F) = ny"
    using assms by (simp add: shape3_def)
next
  fix j assume "j < ny"
  then show "length (clamp lo F ! j) = nx"
    using assms by (simp add: shape3_def list_all_length)
next
  fix j i assume "j < ny" "i < nx"
  then show "length (clamp lo F ! j ! i) = 3"
    using assms by (simp add: shape3_def list_all_length clamp_cell)
qed

lemma average_length [simp]: "length (average pr c nx F) = length F"
  by (simp add: average_def)

lemma average_row_length [simp]:
  "j < length F \<Longrightarrow> length (average pr c nx F ! j) = length (F ! j)"
  by (simp add: average_def)

lemma average_cell_length [simp]: "length (average_cell pr c nx cell) = length cell"
  by (simp add: average_cell_def Let_def)

lemma average_nth:
  "j < length F \<Longrightarrow> i < length (F ! j) \<Longrightarrow>
   average pr c nx F ! j ! i = average_cell pr c nx (F ! j ! i)"
  by (simp add: average_def)

lemma average_shape:
  assumes "shape3 ny nx F"
  shows "shape3 ny nx (average pr c nx' F)"
proof (rule shape3_intro)
  show "length (average pr c nx' F) = ny"
    using assms by (simp add: shape3_def)
next
  fix j assume "j < ny"
  then show "length (average pr c nx' F ! j) = nx"
    using assms by (simp add: shape3_def list_all_length)
next
  fix j i assume "j < ny" "i < nx"
  then show "length (average pr c nx' F ! j ! i) = 3"
    using assms by (simp add: shape3_def list_all_length average_nth)
qed

lemma upwelling_shape: "shape2 ny nx wa \<Longrightarrow> shape2 ny nx (upwelling e u v wa)"
  by (simp add: shape2_def upwelling_def list_all_length)

lemma integrate_wf: "wf_state e s \<Longrightarrow> wf_state e (integrate e p u v s)"
  by (simp add: wf_state_def integrate_def Let_def set_interior_shape upwelling_shape slots_ok_def)

lemma boundary_wf: "wf_state e s \<Longrightarrow> wf_state e (boundary e s)"
  by (simp add: wf_state_def boundary_def clamp_shape slots_ok_def)

lemma averaging_wf: "wf_state e s \<Longrightarrow> wf_state e (averaging n s)"
  by (simp add: wf_state_def averaging_def average_shape slots_ok_def)

lemma cycle_wf: "wf_state e s \<Longrightarrow> wf_state e (cycle s)"
  by (auto simp: wf_state_def cycle_def slots_ok_def)

lemma npz_step_wf:
  assumes "wf_state e s" "npz_step e p n t s = Inr s'"
  shows "wf_state e s'"
proof -
  obtain u v where "s' = averaging n (boundary e (integrate e p u v s))"
    using assms(2) by (auto simp: npz_step_def split: sum.splits prod.splits if_splits)
  then show ?thesis
    using assms(1) by (simp add: integrate_wf boundary_wf averaging_wf)
qed

lemma integrate_fields [simp]:
  "N (integrate e p u v s) = set_interior (N_rhs e p u v (upwelling e u v (w s)) s) (nnext s) (N s)"
  "P (integrate e p u v s) = set_interior (P_rhs e p u v s) (nnext s) (P s)"
  "Z (integrate e p u v s) = set_interior (Z_rhs e p u v s) (nnext s) (Z s)"
  "B (integrate e p u v s) = set_interior (B_rhs p (upwelling e u v (w s)) s) (nnext s) (B s)"
  "w (integrate e p u v s) = upwelling e u v (w s)"
  "nprev (integrate e p u v s) = nprev s"
  "ncur (integrate e p u v s) = ncur s"
  "nnext (integrate e p u v s) = nnext s"
  by (simp_all add: integrate_def Let_def)

lemma boundary_fields [simp]:
  "N (boundary e s) = clamp (min_N e) (N s)"
  "P (boundary e s) = clamp (min_P e) (P s)"
  "Z (boundary e s) = clamp (min_Z e) (Z s)"
  "B (boundary e s) = clamp (min_B e) (B s)"
  "w (boundary e s) = w s"
  "nprev (boundary e s) = nprev s"
  "ncur (boundary e s) = ncur s"
  "nnext (boundary e s) = nnext s"
  by (simp_all add: boundary_def)

lemma averaging_fields [simp]:
  "N (averaging n s) = (if n mod Navg = 0 then average (nprev s) (ncur s) (nnext s) (N s) else N s)"
  "P (averaging n s) = (if n mod Navg = 0 then average (nprev s) (ncur s) (nnext s) (P s) else P s)"
  "Z (averaging n s) = (if n mod Navg = 0 then average (nprev s) (ncur s) (nnext s) (Z s) else Z s)"
  "B (averaging n s) = B s"
  "w (averaging n s) = w s"
  "nprev (averaging n s) = nprev s"
  "ncur (averaging n s) = ncur s"
  "nnext (averaging n s) = nnext s"
  by (simp_all add: averaging_def)

lemma cycle_fields [simp]:
  "N (cycle s) = N s" "P (cycle s) = P s" "Z (cycle s) = Z s" "B (cycle s) = B s"
  "w (cycle s) = w s"
  "nprev (cycle s) = ncur s" "ncur (cycle s) = nnext s" "nnext (cycle s) = nprev s"
  by (simp_all add: cycle_def)

lemma npz_step_Inr:
  assumes "npz_step e p n t s = Inr s'"
  obtains u v where "forcing e t = Inr (u, v)"
    and "s' = averaging n (boundary e (integrate e p u v s))"
  using assms by (auto simp: npz_step_def split: sum.splits prod.splits if_splits)










lemma trace_wf:
  assumes "wf_state e s0" "Inr s' \<in> set (npz_trace e p nts s0)"
  shows "wf_state e s'"
  using assms
proof (induction nts arbitrary: s0)
  case Nil
  then show ?case by simp
next
  case (Cons nt nts)
  obtain n t where nt: "nt = (n, t)" by (cases nt)
  show ?case
  proof (cases "npz_step e p n t s0")
    case (Inl err)
    then show ?thesis using Cons.prems nt by simp
  next
    case (Inr s1)
    then have wf1: "wf_state e s1"
      using Cons.prems(1) npz_step_wf by blast
    from Cons.prems(2) Inr nt
    consider "s' = s1" | "Inr s' \<in> set (npz_trace e p nts (cycle s1))"
      by auto
    then show ?thesis
    proof cases
      case 1
      then show ?thesis using wf1 by simp
    next
      case 2
      then show ?thesis
        using Cons.IH [OF cycle_wf [OF wf1]] by simp
    qed
  qed
qed



lemma ring_not_interior: "ring ny nx j i \<Longrightarrow> \<not> (interior ny j \<and> interior nx i)"
  by (auto simp: ring_def interior_def)

lemma settled_triple:
  assumes "settled lo cell"
  obtains x where "cell = [x, x, x]" "above lo x"
proof -
  from assms have len: "length cell = 3" by (simp add: settled_def)
  then obtain a b c where abc: "cell = [a, b, c]"
    by (auto simp: numeral_3_eq_3 length_Suc_conv)
  with assms have "cell = [a, a, a]" "above lo a"
    by (simp_all add: settled_def)
  then show ?thesis by (rule that)
qed

lemma half_sum_same: "ma_mul (Some (1 / 2)) (ma_add x x) = x"
  by (cases x) simp_all

lemma maximum_above: "above lo x \<Longrightarrow> ma_maximum x lo = x"
  by (cases x) (simp_all add: above_def max_def)

lemma triple_update_same: "k < 3 \<Longrightarrow> [x, x, x][k := x] = [x, x, x]"
  by (cases k; simp) (rename_tac k', case_tac k'; simp)

lemma triple_nth_same: "k < 3 \<Longrightarrow> [x, x, x] ! k = x"
  by (cases k; simp) (rename_tac k', case_tac k'; simp)

lemma settled_clamp: "settled lo cell \<Longrightarrow> map (\<lambda>x. ma_maximum x lo) cell = cell"
  by (erule settled_triple) (simp add: maximum_above)

lemma settled_average:
  assumes "settled lo cell" "pr < 3" "c < 3" "nx < 3"
  shows "average_cell pr c nx cell = cell"
proof -
  from assms(1) obtain x where cell: "cell = [x, x, x]"
    by (rule settled_triple)
  have nth: "cell ! pr = x" "cell ! c = x" "cell ! nx = x"
    using assms(2-4) by (simp_all add: cell triple_nth_same)
  have same: "cell[nx := x] = cell" "cell[c := x] = cell"
    using nth list_update_id [of cell nx] list_update_id [of cell c] by simp_all
  show ?thesis
    by (simp add: average_cell_def nth half_sum_same same)
qed

lemma ring_cell_clamp:
  assumes "shape3 ny nx F" "ring ny nx j i" "settled lo (F ! j ! i)"
  shows "clamp lo (set_interior rhs k F) ! j ! i = F ! j ! i"
proof -
  have ji: "j < ny" "i < nx" using assms(2) by (simp_all add: ring_def)
  have len: "length F = ny" "length (F ! j) = nx"
    using shape3_nth [OF assms(1) ji] by simp_all
  have "set_interior rhs k F ! j ! i = F ! j ! i"
    using ji len ring_not_interior [OF assms(2)] by (auto simp: set_interior_nth)
  then show ?thesis
    using ji len assms(3) by (simp add: clamp_cell settled_clamp)
qed

lemma ring_cell_average:
  assumes "shape3 ny nx F" "ring ny nx j i" "settled lo (F ! j ! i)" "pr < 3" "c < 3" "nx' < 3"
  shows "average pr c nx' (clamp lo (set_interior rhs k F)) ! j ! i = F ! j ! i"
proof -
  have ji: "j < ny" "i < nx" using assms(2) by (simp_all add: ring_def)
  have len: "length F = ny" "length (F ! j) = nx"
    using shape3_nth [OF assms(1) ji] by simp_all
  have "average pr c nx' (clamp lo (set_interior rhs k F)) ! j ! i =
        average_cell pr c nx' (clamp lo (set_interior rhs k F) ! j ! i)"
    using ji len by (simp add: average_nth)
  also have "\<dots> = average_cell pr c nx' (F ! j ! i)"
    by (simp add: ring_cell_clamp [OF assms(1-3)])
  also have "\<dots> = F ! j ! i"
    using assms(3-6) by (rule settled_average)
  finally show ?thesis .
qed

lemma step_ring:
  assumes wf: "wf_state e s" and step: "npz_step e p n t s = Inr s'"
    and ring: "ring (Ny e) (Nx e) j i"
  shows "settled (min_N e) (N s ! j ! i) \<Longrightarrow> N s' ! j ! i = N s ! j ! i"
    and "settled (min_P e) (P s ! j ! i) \<Longrightarrow> P s' ! j ! i = P s ! j ! i"
    and "settled (min_Z e) (Z s ! j ! i) \<Longrightarrow> Z s' ! j ! i = Z s ! j ! i"
    and "settled (min_B e) (B s ! j ! i) \<Longrightarrow> B s' ! j ! i = B s ! j ! i"
proof -
  obtain u v where s': "s' = averaging n (boundary e (integrate e p u v s))"
    using step by (rule npz_step_Inr)
  have sh: "shape3 (Ny e) (Nx e) (N s)" "shape3 (Ny e) (Nx e) (P s)"
    "shape3 (Ny e) (Nx e) (Z s)" "shape3 (Ny e) (Nx e) (B s)"
    and sl: "nprev s < 3" "ncur s < 3" "nnext s < 3"
    using wf by (simp_all add: wf_state_def slots_ok_def)
  show "settled (min_N e) (N s ! j ! i) \<Longrightarrow> N s' ! j ! i = N s ! j ! i"
    using sl by (simp add: s' ring_cell_clamp [OF sh(1) ring] ring_cell_average [OF sh(1) ring])
  show "settled (min_P e) (P s ! j ! i) \<Longrightarrow> P s' ! j ! i = P s ! j ! i"
    using sl by (simp add: s' ring_cell_clamp [OF sh(2) ring] ring_cell_average [OF sh(2) ring])
  show "settled (min_Z e) (Z s ! j ! i) \<Longrightarrow> Z s' ! j ! i = Z s ! j ! i"
    using sl by (simp add: s' ring_cell_clamp [OF sh(3) ring] ring_cell_average [OF sh(3) ring])
  show "settled (min_B e) (B s ! j ! i) \<Longrightarrow> B s' ! j ! i = B s ! j ! i"
    by (simp add: s' ring_cell_clamp [OF sh(4) ring])
qed

lemma trace_ring:
  assumes "wf_state e s0" "Inr s' \<in> set (npz_trace e p nts s0)" "ring (Ny e) (Nx e) j i"
    and "settled (min_N e) (N s0 ! j ! i)" "settled (min_P e) (P s0 ! j ! i)"
    and "settled (min_Z e) (Z s0 ! j ! i)" "settled (min_B e) (B s0 ! j ! i)"
  shows "N s' ! j ! i = N s0 ! j ! i \<and> P s' ! j ! i = P s0 ! j ! i \<and>
         Z s' ! j ! i = Z s0 ! j ! i \<and> B s' ! j ! i = B s0 ! j ! i"
  using assms
proof (induction nts arbitrary: s0)
  case Nil
  then show ?case by simp
next
  case (Cons nt nts)
  obtain n t where nt: "nt = (n, t)" by (cases nt)
  show ?case
  proof (cases "npz_step e p n t s0")
    case (Inl err)
    then show ?thesis using Cons.prems(2) nt by simp
  next
    case (Inr s1)
    have wf1: "wf_state e s1"
      using Cons.prems(1) Inr by (rule npz_step_wf)
    have keep: "N s1 ! j ! i = N s0 ! j ! i" "P s1 ! j ! i = P s0 ! j ! i"
      "Z s1 ! j ! i = Z s0 ! j ! i" "B s1 ! j ! i = B s0 ! j ! i"
      using step_ring [OF Cons.prems(1) Inr Cons.prems(3)] Cons.prems(4-7) by simp_all
    from Cons.prems(2) Inr nt
    consider "s' = s1" | "Inr s' \<in> set (npz_trace e p nts (cycle s1))"
      by auto
    then show ?thesis
    proof cases
      case 1
      then show ?thesis using keep by simp
    next
      case 2
      have "N s' ! j ! i = N (cycle s1) ! j ! i \<and> P s' ! j ! i = P (cycle s1) ! j ! i \<and>
            Z s' ! j ! i = Z (cycle s1) ! j ! i \<and> B s' ! j ! i = B (cycle s1) ! j ! i"
        using Cons.prems(4-7) keep
        by (intro Cons.IH [OF cycle_wf [OF wf1] 2 Cons.prems(3)]) simp_all
      then show ?thesis using keep by simp
    qed
  qed
qed

lemma interior_cell_update:
  assumes "shape3 ny nx F" "interior ny j" "interior nx i" "k < 3"
  shows "set_interior rhs k F ! j ! i ! k = rhs j i"
proof -
  have ji: "j < ny" "i < nx" using assms(2,3) by (simp_all add: interior_def)
  have len: "length F = ny" "length (F ! j) = nx" "length (F ! j ! i) = 3"
    using shape3_nth [OF assms(1) ji] by simp_all
  show ?thesis
    using ji len assms(2-4) by (simp add: set_interior_nth)
qed

lemma init_wf:
  assumes "shape3 (Ny e) (Nx e) N0" "shape3 (Ny e) (Nx e) P0"
    "shape3 (Ny e) (Nx e) Z0" "shape3 (Ny e) (Nx e) B0"
  shows "wf_state e (init_state e N0 P0 Z0 B0)"
  using assms by (simp add: wf_state_def init_state_def shape2_def slots_ok_def list_all_length)

lemma shape2_replicate: "shape2 ny nx (replicate ny (replicate nx x))"
  by (simp add: shape2_def list_all_iff)

lemma zero_grid_shape: "shape2 ny nx (zero_grid ny nx)"
  by (simp add: zero_grid_def shape2_replicate)

lemma npz_first:
  assumes "frc_time e \<noteq> []" "times e = t0 # ts" "forcing e t0 = Inr (u, v)"
    and "shape2 (Ny e) (Nx e) u" "shape2 (Ny e) (Nx e) v"
  shows "Inr (averaging 0 (boundary e (integrate e (to_seconds p) u v (init_state e N0 P0 Z0 B0))))
           \<in> set (npz e p N0 P0 Z0 B0)"
  using assms by (simp add: npz_def npz_step_def)

lemma ex_times: "times ex_env = [0, 600]"
  by (simp add: times_def np_arange_def ex_env_def dt_def upt_conv_Cons)

lemma ex_forcing_0: "forcing ex_env 0 = Inr (zero_grid 3 3, zero_grid 3 3)"
  by (simp add: forcing_def forcing_index_def ex_env_def py_int_def np_index_def interp_def
      zero_grid_def)

lemma ex_first_yield: "Inr ex_first \<in> set (npz ex_env ex_still ex_N0 ex_F0 ex_F0 ex_F0)"
  unfolding ex_first_def
  by (rule npz_first [OF _ ex_times ex_forcing_0]) (simp_all add: ex_env_def zero_grid_shape)

lemma ex_shapes: "shape3 3 3 ex_N0" "shape3 3 3 ex_F0"
  by (simp_all add: shape3_def ex_N0_def ex_F0_def sea_def land_def)

lemma init_fields [simp]:
  "N (init_state e N0 P0 Z0 B0) = N0" "P (init_state e N0 P0 Z0 B0) = P0"
  "Z (init_state e N0 P0 Z0 B0) = Z0" "B (init_state e N0 P0 Z0 B0) = B0"
  "nprev (init_state e N0 P0 Z0 B0) = 0" "ncur (init_state e N0 P0 Z0 B0) = 1"
  "nnext (init_state e N0 P0 Z0 B0) = 2"
  by (simp_all add: init_state_def)

lemma npz_trace_of:
  assumes "Inr s' \<in> set (npz e p N0 P0 Z0 B0)"
  shows "Inr s' \<in> set (npz_trace e (to_seconds p) (enumerate 0 (times e))
                          (init_state e N0 P0 Z0 B0))"
  using assms by (simp add: npz_def split: if_splits)

lemma ex_state_wf: "wf_state ex_env ex_state"
proof -
  have "w ex_state = replicate 3 (replicate 3 0)"
    by (simp add: ex_state_def)
  then have "shape2 (Ny ex_env) (Nx ex_env) (w ex_state)"
    by (simp add: shape2_replicate ex_env_def)
  then show ?thesis
    by (simp add: wf_state_def shape3_def slots_ok_def ex_env_def ex_state_def sea_def land_def)
qed

lemma upwelling_nth:
  assumes "shape2 ny nx wa" "j < ny" "i < nx"
  shows "upwelling e u v wa ! j ! i =
     (if interior ny j \<and> interior nx i then w_cell e u v j i else wa ! j ! i) / 10"
  using assms by (simp add: upwelling_def shape2_def list_all_length)

lemma ex_fill: "fill_value (ma_mean (slot3 (N ex_state) (ncur ex_state))) = 19 / 8"
  by (simp add: ex_state_def slot3_def ma_mean_def valid_values_def map_filter_simps
      sea_def land_def)

lemma ex_w: "w (integrate ex_env ex_bio ex_u ex_v ex_state) ! 1 ! 1 = 7 / 800000"
proof -
  have "shape2 3 3 (w ex_state)"
    by (simp add: shape2_replicate ex_state_def)
  then have "upwelling ex_env ex_u ex_v (w ex_state) ! 1 ! 1 = w_cell ex_env ex_u ex_v 1 1 / 10"
    by (simp add: upwelling_nth interior_def)
  also have "\<dots> = 7 / 800000"
    by (simp add: w_cell_def ex_env_def ex_u_def ex_v_def ma_mean_def valid_values_def
        map_filter_simps)
  finally show ?thesis by simp
qed

lemma average_cell_nth:
  assumes "length cell = 3" "pr < 3" "c < 3" "nx < 3" "distinct [pr, c, nx]"
  shows "average_cell pr c nx cell ! nx = ma_mul (Some 0.5) (ma_add (cell ! nx) (cell ! c))"
    and "average_cell pr c nx cell ! c = ma_mul (Some 0.5) (ma_add (cell ! pr) (cell ! c))"
    and "average_cell pr c nx cell ! pr = cell ! pr"
  using assms by (auto simp: average_cell_def Let_def nth_list_update)

lemma ex_pfill: "fill_value (ma_mean (slot3 (P ex_state) (ncur ex_state))) = 1"
  by (simp add: ex_state_def slot3_def ma_mean_def valid_values_def map_filter_simps
      sea_def land_def)

lemma ex_skew_wf: "wf_state ex_env ex_skew"
proof -
  have "w ex_skew = replicate 3 (replicate 3 0)"
    by (simp add: ex_skew_def)
  then have "shape2 (Ny ex_env) (Nx ex_env) (w ex_skew)"
    by (simp add: shape2_replicate ex_env_def)
  then show ?thesis
    by (simp add: wf_state_def shape3_def slots_ok_def ex_env_def ex_skew_def sea_def)
qed

lemma zero_grid_nth: "j < ny \<Longrightarrow> i < nx \<Longrightarrow> zero_grid ny nx ! j ! i = Some 0"
  by (simp add: zero_grid_def)

lemma w_cell_zero:
  assumes "interior ny j" "interior nx i"
  shows "w_cell e (zero_grid ny nx) (zero_grid ny nx) j i = 0"
proof -
  have "j < ny" "i < nx" "j - 1 < ny" "i - 1 < nx"
    using assms by (auto simp: interior_def)
  then show ?thesis
    by (simp add: w_cell_def Let_def zero_grid_nth)
qed

lemma upwelling_zero:
  assumes "shape2 ny nx wa" "interior ny j" "interior nx i"
  shows "upwelling e (zero_grid ny nx) (zero_grid ny nx) wa ! j ! i = 0"
proof -
  have "j < ny" "i < nx"
    using assms(2,3) by (simp_all add: interior_def)
  then show ?thesis
    using assms by (simp add: upwelling_nth w_cell_zero)
qed

lemma ex_late_times: "times ex_late = [600, 1200]"
  by (simp add: times_def np_arange_def ex_late_def dt_def upt_conv_Cons)

lemma ex_late_forcing_600:
  "forcing ex_late 600 = Inr (const_grid (1 / 10), const_grid (1 / 10))"
  by (simp add: forcing_def forcing_index_def ex_late_def py_int_def np_index_def interp_def
      const_grid_def)

lemma const_grid_shape: "shape2 3 3 (const_grid x)"
  by (simp add: const_grid_def shape2_replicate)

lemma ex_late_dims: "Ny ex_late = 3" "Nx ex_late = 3"
  by (simp_all add: ex_late_def)

lemma ex_late_forcing_1200: "forcing ex_late 1200 = Inl IndexError"
  by (simp add: forcing_def forcing_index_def ex_late_def py_int_def np_index_def)

lemma all_calm_iff:
  "all_calm e N0 P0 Z0 B0 = (\<forall>j<Ny e. \<forall>i<Nx e. calm e N0 P0 Z0 B0 j i)"
  by (auto simp: all_calm_def list_all_iff)

lemma set_interior_id:
  assumes "\<And>j i. j < length F \<Longrightarrow> i < length (F ! j) \<Longrightarrow>
             interior (length F) j \<Longrightarrow> interior (length (F ! j)) i \<Longrightarrow> rhs j i = F ! j ! i ! k"
  shows "set_interior rhs k F = F"
proof (rule nth_equalityI)
  show "length (set_interior rhs k F) = length F" by simp
next
  fix j assume "j < length (set_interior rhs k F)"
  then have j: "j < length F" by simp
  show "set_interior rhs k F ! j = F ! j"
  proof (rule nth_equalityI)
    show "length (set_interior rhs k F ! j) = length (F ! j)"
      using j by simp
  next
    fix i assume "i < length (set_interior rhs k F ! j)"
    then have i: "i < length (F ! j)" using j by simp
    show "set_interior rhs k F ! j ! i = F ! j ! i"
      using assms [OF j i] j i by (simp add: set_interior_nth)
  qed
qed

lemma clamp_id:
  assumes "\<And>j i. j < length F \<Longrightarrow> i < length (F ! j) \<Longrightarrow> settled lo (F ! j ! i)"
  shows "clamp lo F = F"
proof (rule nth_equalityI)
  show "length (clamp lo F) = length F" by simp
next
  fix j assume "j < length (clamp lo F)"
  then have j: "j < length F" by simp
  show "clamp lo F ! j = F ! j"
  proof (rule nth_equalityI)
    show "length (clamp lo F ! j) = length (F ! j)"
      using j by simp
  next
    fix i assume "i < length (clamp lo F ! j)"
    then have i: "i < length (F ! j)" using j by simp
    show "clamp lo F ! j ! i = F ! j ! i"
      using assms [OF j i] j i by (simp add: clamp_cell settled_clamp)
  qed
qed

lemma average_id:
  assumes "\<And>j i. j < length F \<Longrightarrow> i < length (F ! j) \<Longrightarrow> settled lo (F ! j ! i)"
    and "pr < 3" "c < 3" "nx < 3"
  shows "average pr c nx F = F"
proof (rule nth_equalityI)
  show "length (average pr c nx F) = length F" by simp
next
  fix j assume "j < length (average pr c nx F)"
  then have j: "j < length F" by simp
  show "average pr c nx F ! j = F ! j"
  proof (rule nth_equalityI)
    show "length (average pr c nx F ! j) = length (F ! j)"
      using j by simp
  next
    fix i assume "i < length (average pr c nx F ! j)"
    then have i: "i < length (F ! j)" using j by simp
    show "average pr c nx F ! j ! i = F ! j ! i"
      using settled_average [OF assms(1) [OF j i] assms(2-4)] j i by (simp add: average_nth)
  qed
qed

lemma np_index_in_set: "np_index xs k = Inr x \<Longrightarrow> x \<in> set xs"
  by (auto simp: np_index_def Let_def split: if_splits)

lemma interp_zero: "interp fr (zero_grid ny nx) (zero_grid ny nx) = zero_grid ny nx"
  by (simp add: interp_def zero_grid_def zip_replicate)

lemma forcing_zero:
  assumes "zero_velocity e" "forcing e t = Inr (u, v)"
  shows "u = zero_grid (Ny e) (Nx e)" "v = zero_grid (Ny e) (Nx e)"
proof -
  from assms(2) obtain k fr u0 u1 v0 v1 where
    ix: "np_index (frc_u e) k = Inr u0" "np_index (frc_u e) (k + 1) = Inr u1"
      "np_index (frc_v e) k = Inr v0" "np_index (frc_v e) (k + 1) = Inr v1"
    and uv: "u = interp fr u0 u1" "v = interp fr v0 v1"
    by (auto simp: forcing_def split: sum.splits prod.splits)
  have us: "\<And>x. x \<in> set (frc_u e) \<Longrightarrow> x = zero_grid (Ny e) (Nx e)"
    and vs: "\<And>x. x \<in> set (frc_v e) \<Longrightarrow> x = zero_grid (Ny e) (Nx e)"
    using assms(1) by (simp_all add: zero_velocity_def list_all_iff)
  have "u0 = zero_grid (Ny e) (Nx e)" "u1 = zero_grid (Ny e) (Nx e)"
    "v0 = zero_grid (Ny e) (Nx e)" "v1 = zero_grid (Ny e) (Nx e)"
    using us [OF np_index_in_set [OF ix(1)]] us [OF np_index_in_set [OF ix(2)]]
      vs [OF np_index_in_set [OF ix(3)]] vs [OF np_index_in_set [OF ix(4)]]
    by simp_all
  then show "u = zero_grid (Ny e) (Nx e)" "v = zero_grid (Ny e) (Nx e)"
    using uv by (simp_all add: interp_zero)
qed

lemma calm_entries:
  assumes "calm e N0 P0 Z0 B0 j i"
  obtains xn xp xz xb where
    "N0 ! j ! i = [xn, xn, xn]" "P0 ! j ! i = [xp, xp, xp]"
    "Z0 ! j ! i = [xz, xz, xz]" "B0 ! j ! i = [xb, xb, xb]"
    "above (min_N e) xn"
    "(xp = None) = (xn = None)" "(xz = None) = (xn = None)" "(xb = None) = (xn = None)"
proof -
  from assms have st: "settled (min_N e) (N0 ! j ! i)" "settled (min_P e) (P0 ! j ! i)"
    "settled (min_Z e) (Z0 ! j ! i)" "settled (min_B e) (B0 ! j ! i)"
    and mk: "(P0 ! j ! i ! 0 = None) = (N0 ! j ! i ! 0 = None)"
      "(Z0 ! j ! i ! 0 = None) = (N0 ! j ! i ! 0 = None)"
      "(B0 ! j ! i ! 0 = None) = (N0 ! j ! i ! 0 = None)"
    by (simp_all add: calm_def)
  from st(1) obtain xn where n: "N0 ! j ! i = [xn, xn, xn]" "above (min_N e) xn"
    by (rule settled_triple)
  from st(2) obtain xp where p: "P0 ! j ! i = [xp, xp, xp]"
    by (rule settled_triple)
  from st(3) obtain xz where z: "Z0 ! j ! i = [xz, xz, xz]"
    by (rule settled_triple)
  from st(4) obtain xb where b: "B0 ! j ! i = [xb, xb, xb]"
    by (rule settled_triple)
  show ?thesis
    using mk by (intro that [OF n(1) p z b n(2)]) (simp_all add: n p z b)
qed

lemma N_rhs_still:
  assumes wf: "wf_state e s" and int: "interior (Ny e) j" "interior (Nx e) i"
    and calm: "calm e (N s) (P s) (Z s) (B s) j i"
    and par: "Vm p = 0" "m p = 0" "Rm p = 0" "g p = 0" "At p = 0" "0 < ks p" "0 \<le> min_N e"
    and w0: "wa ! j ! i = 0"
  shows "N_rhs e p (zero_grid (Ny e) (Nx e)) (zero_grid (Ny e) (Nx e)) wa s j i =
         N s ! j ! i ! nnext s"
proof -
  have sl: "nprev s < 3" "ncur s < 3" "nnext s < 3"
    using wf by (simp_all add: wf_state_def slots_ok_def)
  have ji: "j < Ny e" "i < Nx e"
    using int by (simp_all add: interior_def)
  have vel: "zero_grid (Ny e) (Nx e) ! j ! i = Some 0"
    using ji by (rule zero_grid_nth)
  from calm obtain xn xp xz xb where
    c: "N s ! j ! i = [xn, xn, xn]" "P s ! j ! i = [xp, xp, xp]"
    "Z s ! j ! i = [xz, xz, xz]" "B s ! j ! i = [xb, xb, xb]"
    and ab: "above (min_N e) xn"
    and mk: "(xp = None) = (xn = None)" "(xz = None) = (xn = None)" "(xb = None) = (xn = None)"
    by (rule calm_entries)
  have nth: "N s ! j ! i ! nprev s = xn" "N s ! j ! i ! ncur s = xn" "N s ! j ! i ! nnext s = xn"
    "P s ! j ! i ! ncur s = xp" "Z s ! j ! i ! ncur s = xz" "B s ! j ! i ! ncur s = xb"
    using sl by (simp_all add: c triple_nth_same)
  show ?thesis
  proof (cases xn)
    case None
    then show ?thesis
      by (simp add: N_rhs_def Let_def nth)
  next
    case (Some a)
    with mk obtain b c d where v: "xp = Some b" "xz = Some c" "xb = Some d"
      by auto
    have "ks p + a \<noteq> 0"
      using ab Some par(6,7) by (simp add: above_def)
    then show ?thesis
      unfolding N_rhs_def zonal_def meridional_def upwell_def uptake_def pmortality_def
        zmortality_def graze_def Let_def nth vel w0
      by (simp add: Some v par)
  qed
qed

lemma P_rhs_still:
  assumes wf: "wf_state e s" and int: "interior (Ny e) j" "interior (Nx e) i"
    and calm: "calm e (N s) (P s) (Z s) (B s) j i"
    and par: "Vm p = 0" "m p = 0" "Rm p = 0" "alpha p = 0" "At p = 0" "0 < ks p" "0 \<le> min_N e"
  shows "P_rhs e p (zero_grid (Ny e) (Nx e)) (zero_grid (Ny e) (Nx e)) s j i =
         P s ! j ! i ! nnext s"
proof -
  have sl: "nprev s < 3" "ncur s < 3" "nnext s < 3"
    using wf by (simp_all add: wf_state_def slots_ok_def)
  have ji: "j < Ny e" "i < Nx e"
    using int by (simp_all add: interior_def)
  have vel: "zero_grid (Ny e) (Nx e) ! j ! i = Some 0"
    using ji by (rule zero_grid_nth)
  from calm obtain xn xp xz xb where
    c: "N s ! j ! i = [xn, xn, xn]" "P s ! j ! i = [xp, xp, xp]"
    "Z s ! j ! i = [xz, xz, xz]" "B s ! j ! i = [xb, xb, xb]"
    and ab: "above (min_N e) xn"
    and mk: "(xp = None) = (xn = None)" "(xz = None) = (xn = None)" "(xb = None) = (xn = None)"
    by (rule calm_entries)
  have nth: "P s ! j ! i ! nprev s = xp" "P s ! j ! i ! ncur s = xp" "P s ! j ! i ! nnext s = xp"
    "N s ! j ! i ! ncur s = xn" "Z s ! j ! i ! ncur s = xz"
    using sl by (simp_all add: c triple_nth_same)
  show ?thesis
  proof (cases xn)
    case None
    with mk have "xp = None" by simp
    then show ?thesis
      by (simp add: P_rhs_def Let_def nth)
  next
    case (Some a)
    with mk obtain b c where v: "xp = Some b" "xz = Some c"
      by auto
    have "ks p + a \<noteq> 0"
      using ab Some par(6,7) by (simp add: above_def)
    then show ?thesis
      unfolding P_rhs_def zonal_def meridional_def uptake_def pmortality_def binput_def
        graze_def Let_def nth vel
      by (simp add: Some v par)
  qed
qed

lemma Z_rhs_still:
  assumes wf: "wf_state e s" and int: "interior (Ny e) j" "interior (Nx e) i"
    and calm: "calm e (N s) (P s) (Z s) (B s) j i"
    and par: "Rm p = 0" "g p = 0" "At p = 0"
  shows "Z_rhs e p (zero_grid (Ny e) (Nx e)) (zero_grid (Ny e) (Nx e)) s j i =
         Z s ! j ! i ! nnext s"
proof -
  have sl: "nprev s < 3" "ncur s < 3" "nnext s < 3"
    using wf by (simp_all add: wf_state_def slots_ok_def)
  have ji: "j < Ny e" "i < Nx e"
    using int by (simp_all add: interior_def)
  have vel: "zero_grid (Ny e) (Nx e) ! j ! i = Some 0"
    using ji by (rule zero_grid_nth)
  from calm obtain xn xp xz xb where
    c: "N s ! j ! i = [xn, xn, xn]" "P s ! j ! i = [xp, xp, xp]"
    "Z s ! j ! i = [xz, xz, xz]" "B s ! j ! i = [xb, xb, xb]"
    and mk: "(xp = None) = (xn = None)" "(xz = None) = (xn = None)" "(xb = None) = (xn = None)"
    by (rule calm_entries)
  have nth: "Z s ! j ! i ! nprev s = xz" "Z s ! j ! i ! ncur s = xz" "Z s ! j ! i ! nnext s = xz"
    "P s ! j ! i ! ncur s = xp"
    using sl by (simp_all add: c triple_nth_same)
  show ?thesis
  proof (cases xn)
    case None
    with mk have "xz = None" by simp
    then show ?thesis
      by (simp add: Z_rhs_def Let_def nth)
  next
    case (Some a)
    with mk obtain b c where v: "xp = Some b" "xz = Some c"
      by auto
    show ?thesis
      unfolding Z_rhs_def zonal_def meridional_def zmortality_def graze_def Let_def nth vel
      by (simp add: v par)
  qed
qed

lemma B_rhs_still:
  assumes wf: "wf_state e s" and int: "interior (Ny e) j" "interior (Nx e) i"
    and calm: "calm e (N s) (P s) (Z s) (B s) j i"
    and par: "alpha p = 0"
    and w0: "wa ! j ! i = 0"
  shows "B_rhs p wa s j i = B s ! j ! i ! nnext s"
proof -
  have sl: "nprev s < 3" "ncur s < 3" "nnext s < 3"
    using wf by (simp_all add: wf_state_def slots_ok_def)
  from calm obtain xn xp xz xb where
    c: "N s ! j ! i = [xn, xn, xn]" "P s ! j ! i = [xp, xp, xp]"
    "Z s ! j ! i = [xz, xz, xz]" "B s ! j ! i = [xb, xb, xb]"
    and mk: "(xp = None) = (xn = None)" "(xz = None) = (xn = None)" "(xb = None) = (xn = None)"
    by (rule calm_entries)
  have nth: "B s ! j ! i ! nprev s = xb" "B s ! j ! i ! ncur s = xb" "B s ! j ! i ! nnext s = xb"
    "P s ! j ! i ! ncur s = xp" "N s ! j ! i ! ncur s = xn"
    using sl by (simp_all add: c triple_nth_same)
  show ?thesis
  proof (cases xn)
    case None
    with mk have "xb = None" by simp
    then show ?thesis
      by (simp add: B_rhs_def Let_def nth)
  next
    case (Some a)
    with mk obtain b d where v: "xp = Some b" "xb = Some d"
      by auto
    show ?thesis
      unfolding B_rhs_def upwell_def binput_def nth w0
      by (simp add: Some v par)
  qed
qed

lemma step_still:
  assumes wf: "wf_state e s"
    and calm: "all_calm e (N s) (P s) (Z s) (B s)"
    and vel: "zero_velocity e"
    and par: "Vm p = 0" "m p = 0" "Rm p = 0" "g p = 0" "alpha p = 0" "At p = 0"
      "0 < ks p" "0 \<le> min_N e"
    and step: "npz_step e p n t s = Inr s'"
  shows "N s' = N s \<and> P s' = P s \<and> Z s' = Z s \<and> B s' = B s"
proof -
  obtain u v where frc: "forcing e t = Inr (u, v)"
    and s': "s' = averaging n (boundary e (integrate e p u v s))"
    using step by (rule npz_step_Inr)
  have uv: "u = zero_grid (Ny e) (Nx e)" "v = zero_grid (Ny e) (Nx e)"
    using forcing_zero [OF vel frc] by simp_all
  have sh: "shape3 (Ny e) (Nx e) (N s)" "shape3 (Ny e) (Nx e) (P s)"
    "shape3 (Ny e) (Nx e) (Z s)" "shape3 (Ny e) (Nx e) (B s)"
    and shw: "shape2 (Ny e) (Nx e) (w s)"
    and sl: "nprev s < 3" "ncur s < 3" "nnext s < 3"
    using wf by (simp_all add: wf_state_def slots_ok_def)
  have cm: "calm e (N s) (P s) (Z s) (B s) j i" if "j < Ny e" "i < Nx e" for j i
    using calm that by (simp add: all_calm_iff)
  have len: "length F = Ny e" "j < Ny e \<Longrightarrow> length (F ! j) = Nx e"
    if "shape3 (Ny e) (Nx e) F" for F j
    using that by (simp_all add: shape3_def list_all_length)
  have w0: "upwelling e u v (w s) ! j ! i = 0" if "interior (Ny e) j" "interior (Nx e) i" for j i
    unfolding uv using shw that by (rule upwelling_zero)
  have iN: "set_interior (N_rhs e p u v (upwelling e u v (w s)) s) (nnext s) (N s) = N s"
  proof (rule set_interior_id)
    fix j i assume "j < length (N s)" "i < length (N s ! j)"
      "interior (length (N s)) j" "interior (length (N s ! j)) i"
    then have ji: "j < Ny e" "i < Nx e" and int: "interior (Ny e) j" "interior (Nx e) i"
      using len [OF sh(1)] by simp_all
    show "N_rhs e p u v (upwelling e u v (w s)) s j i = N s ! j ! i ! nnext s"
      unfolding uv
      using wf int cm [OF ji] par(1,2,3,4,6,7,8) w0 [OF int, unfolded uv]
      by (rule N_rhs_still)
  qed
  have iP: "set_interior (P_rhs e p u v s) (nnext s) (P s) = P s"
  proof (rule set_interior_id)
    fix j i assume "j < length (P s)" "i < length (P s ! j)"
      "interior (length (P s)) j" "interior (length (P s ! j)) i"
    then have ji: "j < Ny e" "i < Nx e" and int: "interior (Ny e) j" "interior (Nx e) i"
      using len [OF sh(2)] by simp_all
    show "P_rhs e p u v s j i = P s ! j ! i ! nnext s"
      unfolding uv
      using wf int cm [OF ji] par(1,2,3,5,6,7,8)
      by (rule P_rhs_still)
  qed
  have iZ: "set_interior (Z_rhs e p u v s) (nnext s) (Z s) = Z s"
  proof (rule set_interior_id)
    fix j i assume "j < length (Z s)" "i < length (Z s ! j)"
      "interior (length (Z s)) j" "interior (length (Z s ! j)) i"
    then have ji: "j < Ny e" "i < Nx e" and int: "interior (Ny e) j" "interior (Nx e) i"
      using len [OF sh(3)] by simp_all
    show "Z_rhs e p u v s j i = Z s ! j ! i ! nnext s"
      unfolding uv
      using wf int cm [OF ji] par(3,4,6)
      by (rule Z_rhs_still)
  qed
  have iB: "set_interior (B_rhs p (upwelling e u v (w s)) s) (nnext s) (B s) = B s"
  proof (rule set_interior_id)
    fix j i assume "j < length (B s)" "i < length (B s ! j)"
      "interior (length (B s)) j" "interior (length (B s ! j)) i"
    then have ji: "j < Ny e" "i < Nx e" and int: "interior (Ny e) j" "interior (Nx e) i"
      using len [OF sh(4)] by simp_all
    show "B_rhs p (upwelling e u v (w s)) s j i = B s ! j ! i ! nnext s"
      using wf int cm [OF ji] par(5) w0 [OF int]
      by (rule B_rhs_still)
  qed
  have stN: "settled (min_N e) (N s ! j ! i)" if "j < length (N s)" "i < length (N s ! j)" for j i
    using cm [of j i] that len [OF sh(1)] by (simp add: calm_def)
  have stP: "settled (min_P e) (P s ! j ! i)" if "j < length (P s)" "i < length (P s ! j)" for j i
    using cm [of j i] that len [OF sh(2)] by (simp add: calm_def)
  have stZ: "settled (min_Z e) (Z s ! j ! i)" if "j < length (Z s)" "i < length (Z s ! j)" for j i
    using cm [of j i] that len [OF sh(3)] by (simp add: calm_def)
  have stB: "settled (min_B e) (B s ! j ! i)" if "j < length (B s)" "i < length (B s ! j)" for j i
    using cm [of j i] that len [OF sh(4)] by (simp add: calm_def)
  have "N s' = N s"
    by (simp add: s' iN clamp_id [of "N s", OF stN] average_id [of "N s", OF stN sl])
  moreover have "P s' = P s"
    by (simp add: s' iP clamp_id [of "P s", OF stP] average_id [of "P s", OF stP sl])
  moreover have "Z s' = Z s"
    by (simp add: s' iZ clamp_id [of "Z s", OF stZ] average_id [of "Z s", OF stZ sl])
  moreover have "B s' = B s"
    by (simp add: s' iB clamp_id [of "B s", OF stB])
  ultimately show ?thesis by simp
qed

lemma trace_still:
  assumes "wf_state e s0"
    and "all_calm e (N s0) (P s0) (Z s0) (B s0)"
    and vel: "zero_velocity e"
    and par: "Vm p = 0" "m p = 0" "Rm p = 0" "g p = 0" "alpha p = 0" "At p = 0"
      "0 < ks p" "0 \<le> min_N e"
    and "Inr s' \<in> set (npz_trace e p nts s0)"
  shows "N s' = N s0 \<and> P s' = P s0 \<and> Z s' = Z s0 \<and> B s' = B s0"
  using assms(1,2,12)
proof (induction nts arbitrary: s0)
  case Nil
  then show ?case by simp
next
  case (Cons nt nts)
  obtain n t where nt: "nt = (n, t)" by (cases nt)
  show ?case
  proof (cases "npz_step e p n t s0")
    case (Inl err)
    then show ?thesis using Cons.prems(3) nt by simp
  next
    case (Inr s1)
    have wf1: "wf_state e s1"
      using Cons.prems(1) Inr by (rule npz_step_wf)
    have keep: "N s1 = N s0 \<and> P s1 = P s0 \<and> Z s1 = Z s0 \<and> B s1 = B s0"
      using Cons.prems(1,2) vel par Inr by (rule step_still)
    from Cons.prems(3) Inr nt
    consider "s' = s1" | "Inr s' \<in> set (npz_trace e p nts (cycle s1))"
      by auto
    then show ?thesis
    proof cases
      case 1
      then show ?thesis using keep by simp
    next
      case 2
      have "N s' = N (cycle s1) \<and> P s' = P (cycle s1) \<and>
            Z s' = Z (cycle s1) \<and> B s' = B (cycle s1)"
        using Cons.prems(2) keep
        by (intro Cons.IH [OF cycle_wf [OF wf1] _ 2]) simp
      then show ?thesis using keep by simp
    qed
  qed
qed

lemma ex_steady_yield: "Inr ex_steady \<in> set (npz ex_env ex_nomix ex_N0 ex_F0 ex_F0 ex_F0)"
  unfolding ex_steady_def
  by (rule npz_first [OF _ ex_times ex_forcing_0]) (simp_all add: ex_env_def zero_grid_shape)

lemma ex_all_calm: "all_calm ex_env ex_N0 ex_F0 ex_F0 ex_F0"
  by (simp add: all_calm_def upt_conv_Cons calm_def settled_def above_def ex_env_def
      ex_N0_def ex_F0_def sea_def land_def)

lemma ex_zero_velocity: "zero_velocity ex_env"
  by (simp add: zero_velocity_def ex_env_def)

lemma ex_first_N_rhs:
  "N_rhs ex_env (to_seconds ex_still) (zero_grid 3 3) (zero_grid 3 3)
     (upwelling ex_env (zero_grid 3 3) (zero_grid 3 3)
        (w (init_state ex_env ex_N0 ex_F0 ex_F0 ex_F0)))
     (init_state ex_env ex_N0 ex_F0 ex_F0 ex_F0) 1 1 = Some (128 / 125)"
proof -
  have int: "interior 3 1"
    by (simp add: interior_def)
  have w0: "upwelling ex_env (zero_grid 3 3) (zero_grid 3 3)
              (w (init_state ex_env ex_N0 ex_F0 ex_F0 ex_F0)) ! 1 ! 1 = 0"
    by (rule upwelling_zero [OF _ int int]) (simp add: init_state_def ex_env_def shape2_replicate)
  have v0: "zero_grid 3 3 ! 1 ! 1 = Some 0"
    by (simp add: zero_grid_nth)
  show ?thesis
    unfolding N_rhs_def zonal_def meridional_def upwell_def diffx_def diffy_N_def
      uptake_def pmortality_def zmortality_def graze_def Let_def w0 v0
    by (simp add: init_state_def ex_N0_def ex_F0_def sea_def ex_still_def to_seconds_def
        ex_env_def dt_def)
qed

text \<open>
  The fields of the notebook's initialisation are at rest, when their values are at or
  above the floors.
\<close>

lemma initial_field_nth:
  "j < length msk \<Longrightarrow> i < length (msk ! j) \<Longrightarrow>
   initial_field msk outer inner ! j ! i =
     (if msk ! j ! i = 0 then [None, None, None]
      else replicate 3 (Some (if j < 20 \<and> 10 \<le> i then inner else outer)))"
  by (simp add: initial_field_def)

lemma initial_field_shape:
  assumes "shape2 ny nx msk"
  shows "shape3 ny nx (initial_field msk outer inner)"
proof (rule shape3_intro)
  show "length (initial_field msk outer inner) = ny"
    using assms by (simp add: initial_field_def shape2_def)
next
  fix j assume "j < ny"
  then show "length (initial_field msk outer inner ! j) = nx"
    using assms by (simp add: initial_field_def shape2_def list_all_length)
next
  fix j i assume "j < ny" "i < nx"
  then show "length (initial_field msk outer inner ! j ! i) = 3"
    using assms by (simp add: initial_field_nth shape2_def list_all_length)
qed

lemma initial_field_settled:
  assumes "j < length msk" "i < length (msk ! j)" "lo \<le> outer" "lo \<le> inner"
  shows "settled lo (initial_field msk outer inner ! j ! i)"
  using assms by (simp add: initial_field_nth settled_def above_def numeral_3_eq_3)

lemma initial_all_calm:
  assumes "shape2 (Ny e) (Nx e) msk"
    and "min_N e \<le> N0 * 1.2" "min_N e \<le> N0" "min_P e \<le> P0 / 2" "min_P e \<le> P0"
    and "min_Z e \<le> Z0 / 2" "min_Z e \<le> Z0" "min_B e \<le> B0 / 2" "min_B e \<le> B0"
  shows "all_calm e (initial_field msk (N0 * 1.2) N0) (initial_field msk (P0 / 2) P0)
           (initial_field msk (Z0 / 2) Z0) (initial_field msk (B0 / 2) B0)"
  unfolding all_calm_iff
proof (intro allI impI)
  fix j i assume ji: "j < Ny e" "i < Nx e"
  then have len: "j < length msk" "i < length (msk ! j)"
    using assms(1) by (simp_all add: shape2_def list_all_length)
  have masks: "(initial_field msk a b ! j ! i ! 0 = None) = (msk ! j ! i = 0)" for a b
    using len by (simp add: initial_field_nth numeral_3_eq_3)
  show "calm e (initial_field msk (N0 * 1.2) N0) (initial_field msk (P0 / 2) P0)
           (initial_field msk (Z0 / 2) Z0) (initial_field msk (B0 / 2) B0) j i"
    unfolding calm_def masks
    using initial_field_settled [OF len] assms(2-9) by simp
qed

text \<open>The sample interval, and the bounds of the step times.\<close>

lemma length_np_diff: "length (np_diff xs) = length xs - 1"
  by (simp add: np_diff_def)

lemma sum_list_np_diff: "xs \<noteq> [] \<Longrightarrow> sum_list (np_diff xs) = last xs - hd xs"
proof (induction xs)
  case Nil
  then show ?case by simp
next
  case (Cons x xs)
  show ?case
  proof (cases xs)
    case Nil
    then show ?thesis by (simp add: np_diff_def)
  next
    case (Cons y ys)
    then have "np_diff (x # xs) = (y - x) # np_diff xs"
      by (simp add: np_diff_def)
    then show ?thesis
      using Cons.IH Cons by simp
  qed
qed

lemma frc_dt_span:
  assumes "2 \<le> length ts"
  shows "np_mean (np_diff ts) = (last ts - hd ts) / real (length ts - 1)"
proof -
  have "ts \<noteq> []" using assms by auto
  then show ?thesis
    by (simp add: np_mean_def sum_list_np_diff length_np_diff)
qed

lemma times_bounds:
  assumes "t \<in> set (times e)"
  shows "hd (frc_time e) \<le> t" "t < last (frc_time e)"
proof -
  from assms obtain k where k: "k < nat \<lceil>(last (frc_time e) - hd (frc_time e)) / dt\<rceil>"
    and t: "t = hd (frc_time e) + real k * dt"
    by (auto simp: times_def np_arange_def)
  show "hd (frc_time e) \<le> t"
    by (simp add: t dt_def)
  from k have "int k < \<lceil>(last (frc_time e) - hd (frc_time e)) / dt\<rceil>"
    by linarith
  then have "real k < (last (frc_time e) - hd (frc_time e)) / dt"
    by (simp add: less_ceiling_iff)
  then have "real k * dt < last (frc_time e) - hd (frc_time e)"
    by (simp add: dt_def field_simps)
  then show "t < last (frc_time e)"
    by (simp add: t)
qed

lemma ex_env_frc_dt: "frc_dt ex_env = np_mean (np_diff (frc_time ex_env))"
  by (simp add: ex_env_def np_mean_def np_diff_def)

lemma ex_late_frc_dt: "frc_dt ex_late = np_mean (np_diff (frc_time ex_late))"
  by (simp add: ex_late_def np_mean_def np_diff_def)

subsection \<open>The forcing interpolation when the forcing starts at time zero\<close>

text \<open>
  When the first forcing timestamp is \<open>0\<close> (and there are at least two, with one
  velocity sample each, and \<^verbatim>\<open>frc_dt\<close> is the mean sample interval), every step time
  \<open>t\<close> of the time grid has both bracketing samples: the interpolation returns, with
  \<open>k = floor (t / frc_dt)\<close> and \<open>0 \<le> k\<close>, \<open>k + 1 < length frc_time\<close>.
\<close>

lemma forcing_in_range:
  assumes ts: "2 \<le> length (frc_time e)" "hd (frc_time e) = 0"
    and fdt: "frc_dt e = np_mean (np_diff (frc_time e))"
    and len: "length (frc_u e) = length (frc_time e)" "length (frc_v e) = length (frc_time e)"
    and t: "t \<in> set (times e)"
  shows "\<exists>k fr. forcing_index e t = Inr (k, fr) \<and> 0 \<le> k \<and> k + 1 < int (length (frc_time e)) \<and>
           k = \<lfloor>t / frc_dt e\<rfloor> \<and> fr = t / frc_dt e - of_int k \<and>
           forcing e t = Inr (interp fr (frc_u e ! nat k) (frc_u e ! nat (k + 1)),
                              interp fr (frc_v e ! nat k) (frc_v e ! nat (k + 1)))"
proof -
  define n where "n = length (frc_time e)"
  have tb: "0 \<le> t" "t < last (frc_time e)"
    using times_bounds [OF t] ts(2) by simp_all
  have dt_eq: "frc_dt e = last (frc_time e) / real (n - 1)"
    using frc_dt_span [OF ts(1)] fdt ts(2) by (simp add: n_def)
  have n2: "2 \<le> n" using ts(1) by (simp add: n_def)
  have pos: "0 < frc_dt e"
    using tb n2 by (simp add: dt_eq)
  define k where "k = \<lfloor>t / frc_dt e\<rfloor>"
  have fidx0: "0 \<le> t / frc_dt e"
    using tb(1) pos by simp
  have "t / frc_dt e < real (n - 1)"
  proof -
    have L: "0 < last (frc_time e)"
      using tb by linarith
    have "t / frc_dt e = t / last (frc_time e) * real (n - 1)"
      by (simp add: dt_eq)
    also have "\<dots> < 1 * real (n - 1)"
      using tb L n2 by (intro mult_strict_right_mono) simp_all
    finally show ?thesis by simp
  qed
  then have kub: "k < int (n - 1)"
    unfolding k_def by (simp add: floor_less_iff)
  have klb: "0 \<le> k"
    unfolding k_def using fidx0 by simp
  have fi: "forcing_index e t = Inr (k, t / frc_dt e - of_int k)"
    using pos fidx0 by (simp add: forcing_index_def py_int_def k_def Let_def)
  have ix: "np_index (frc_u e) k = Inr (frc_u e ! nat k)"
    "np_index (frc_u e) (k + 1) = Inr (frc_u e ! nat (k + 1))"
    "np_index (frc_v e) k = Inr (frc_v e ! nat k)"
    "np_index (frc_v e) (k + 1) = Inr (frc_v e ! nat (k + 1))"
    using klb kub n2 len by (simp_all add: np_index_def n_def)
  have "forcing e t = Inr (interp (t / frc_dt e - of_int k) (frc_u e ! nat k) (frc_u e ! nat (k + 1)),
                           interp (t / frc_dt e - of_int k) (frc_v e ! nat k) (frc_v e ! nat (k + 1)))"
    by (simp add: forcing_def fi ix)
  moreover have "k + 1 < int (length (frc_time e))"
    using kub n2 by (simp add: n_def)
  ultimately show ?thesis
    using fi klb by (simp add: k_def)
qed

lemma forcing_in_range_example:
  "2 \<le> length (frc_time ex_env) \<and> hd (frc_time ex_env) = 0 \<and>
   frc_dt ex_env = np_mean (np_diff (frc_time ex_env)) \<and>
   length (frc_u ex_env) = length (frc_time ex_env) \<and>
   length (frc_v ex_env) = length (frc_time ex_env) \<and>
   600 \<in> set (times ex_env) \<and>
   forcing_index ex_env 600 = Inr (1, 0) \<and>
   forcing ex_env 600 = Inr (interp 0 (frc_u ex_env ! 1) (frc_u ex_env ! 2),
                             interp 0 (frc_v ex_env ! 1) (frc_v ex_env ! 2))"
proof -
  have h: "2 \<le> length (frc_time ex_env)" "hd (frc_time ex_env) = 0"
    "length (frc_u ex_env) = length (frc_time ex_env)"
    "length (frc_v ex_env) = length (frc_time ex_env)"
    by (simp_all add: ex_env_def)
  have t: "600 \<in> set (times ex_env)"
    by (simp add: ex_times)
  have q: "600 / frc_dt ex_env = 1"
    by (simp add: ex_env_def)
  from forcing_in_range [OF h(1,2) ex_env_frc_dt h(3,4) t]
  obtain k fr where "forcing_index ex_env 600 = Inr (k, fr)" "k = \<lfloor>600 / frc_dt ex_env\<rfloor>"
    "fr = 600 / frc_dt ex_env - of_int k"
    "forcing ex_env 600 = Inr (interp fr (frc_u ex_env ! nat k) (frc_u ex_env ! nat (k + 1)),
                               interp fr (frc_v ex_env ! nat k) (frc_v ex_env ! nat (k + 1)))"
    by blast
  then have "forcing_index ex_env 600 = Inr (1, 0)"
    "forcing ex_env 600 = Inr (interp 0 (frc_u ex_env ! 1) (frc_u ex_env ! 2),
                               interp 0 (frc_v ex_env ! 1) (frc_v ex_env ! 2))"
    by (simp_all add: q numeral_2_eq_2)
  then show ?thesis
    using h ex_env_frc_dt t by simp
qed

subsection \<open>Valid entries stay valid\<close>

lemma valid_simps [simp]:
  "valid (Some x)" "\<not> valid None"
  by (simp_all add: valid_def)

lemma valid_ops [simp]:
  "valid (ma_add a b) = (valid a \<and> valid b)"
  "valid (ma_sub a b) = (valid a \<and> valid b)"
  "valid (ma_mul a b) = (valid a \<and> valid b)"
  "valid (ma_neg a) = valid a"
  "valid (ma_exp a) = valid a"
  "valid (ma_maximum a lo) = valid a"
  by (cases a; cases b; simp)+























subsection \<open>The yields of a run, by index\<close>

lemma trace_nth:
  assumes "k < length (npz_trace e p (enumerate n0 ts) s0)"
    and "npz_trace e p (enumerate n0 ts) s0 ! k = Inr s'"
  shows "k < length ts \<and>
    (\<exists>s. npz_step e p (n0 + k) (ts ! k) s = Inr s' \<and> (k = 0 \<longrightarrow> s = s0) \<and>
       (0 < k \<longrightarrow> (\<exists>sp. npz_trace e p (enumerate n0 ts) s0 ! (k - 1) = Inr sp \<and> s = cycle sp)))"
  using assms
proof (induction ts arbitrary: n0 s0 k)
  case Nil
  then show ?case by simp
next
  case (Cons t ts)
  show ?case
  proof (cases "npz_step e p n0 t s0")
    case (Inl err)
    then show ?thesis using Cons.prems by simp
  next
    case (Inr s1)
    then have tr: "npz_trace e p (enumerate n0 (t # ts)) s0 =
        Inr s1 # npz_trace e p (enumerate (Suc n0) ts) (cycle s1)"
      by simp
    show ?thesis
    proof (cases k)
      case 0
      then have "s' = s1" using Cons.prems(2) tr by simp
      then show ?thesis using Inr 0 by simp
    next
      case (Suc k')
      have 1: "k' < length (npz_trace e p (enumerate (Suc n0) ts) (cycle s1))"
        and 2: "npz_trace e p (enumerate (Suc n0) ts) (cycle s1) ! k' = Inr s'"
        using Cons.prems tr Suc by simp_all
      from Cons.IH [OF 1 2] obtain s where k': "k' < length ts"
        and st: "npz_step e p (Suc n0 + k') (ts ! k') s = Inr s'"
        and first: "k' = 0 \<longrightarrow> s = cycle s1"
        and later: "0 < k' \<longrightarrow> (\<exists>sp. npz_trace e p (enumerate (Suc n0) ts) (cycle s1) ! (k' - 1)
                       = Inr sp \<and> s = cycle sp)"
        by blast
      have "\<exists>sp. npz_trace e p (enumerate n0 (t # ts)) s0 ! (k - 1) = Inr sp \<and> s = cycle sp"
      proof (cases k')
        case 0
        then show ?thesis using first tr Suc by simp
      next
        case (Suc k'')
        then show ?thesis using later tr \<open>k = Suc k'\<close> by simp
      qed
      then show ?thesis
        using k' st Suc by auto
    qed
  qed
qed

lemma ex_forcing_600: "forcing ex_env 600 = Inr (zero_grid 3 3, zero_grid 3 3)"
  by (simp add: forcing_def forcing_index_def ex_env_def py_int_def np_index_def interp_def
      zero_grid_def)

lemma ex_run:
  "npz ex_env ex_still ex_N0 ex_F0 ex_F0 ex_F0 = [Inr ex_first, Inr ex_second]"
proof -
  have ne: "frc_time ex_env \<noteq> []" and dims: "Ny ex_env = 3" "Nx ex_env = 3"
    by (simp_all add: ex_env_def)
  have 1: "npz_step ex_env (to_seconds ex_still) 0 0 (init_state ex_env ex_N0 ex_F0 ex_F0 ex_F0)
        = Inr ex_first"
    by (simp add: npz_step_def ex_forcing_0 zero_grid_shape dims ex_first_def)
  have 2: "npz_step ex_env (to_seconds ex_still) 1 600 (cycle ex_first) = Inr ex_second"
    by (simp add: npz_step_def ex_forcing_600 zero_grid_shape dims ex_second_def averaging_def
        Navg_def)
  show ?thesis
    using ne 1 2 by (simp add: npz_def ex_times)
qed

section \<open>C1: the leapfrog update of \<open>N\<close>\<close>

text \<open>
  Claim C1. In every step, at every interior position \<open>(j, i)\<close> whose entries are valid
  (\<^verbatim>\<open>N\<close> at the previous and current slot, \<^verbatim>\<open>P\<close>, \<^verbatim>\<open>Z\<close>, \<^verbatim>\<open>B\<close> at the current
  slot, both velocity components, and a non-zero denominator \<open>ks + N\<close>), the update
  phase writes into the next slot of \<^verbatim>\<open>N\<close> the value
  \<open>previous + 2 dt (- zonal - meridional - w (N - B) + At (diffx + diffy) - uptake +
  pmortality + zmortality + gamma graze)\<close>: the advective differences are taken at the
  current slot, the diffusion terms at the previous slot, the biological terms at the
  current slot, and a masked neighbour counts as the mean \<open>nfill\<close> of the valid
  entries of the current slot of \<^verbatim>\<open>N\<close>. Here \<open>w\<close> is the upwelling array of this step
  (a tenth of the one-sided divergence of the filled velocity), and the rates are those
  of the loop, after the conversion to seconds.
\<close>

theorem N_update_formula:
  assumes wf: "wf_state e s"
    and int: "interior (Ny e) j" "interior (Nx e) i"
    and vals: "N s ! j ! i ! nprev s = Some np" "N s ! j ! i ! ncur s = Some nc"
      "P s ! j ! i ! ncur s = Some pc" "Z s ! j ! i ! ncur s = Some zc"
      "B s ! j ! i ! ncur s = Some bc"
    and vel: "u ! j ! i = Some uc" "v ! j ! i = Some vc"
    and dom: "ks p + nc \<noteq> 0"
    and fill: "nfill = fill_value (ma_mean (slot3 (N s) (ncur s)))"
  shows "N (integrate e p u v s) ! j ! i ! nnext s =
     Some (np + 2 * dt *
       (- (0.5 * idx e * uc *
            (filled (N s ! j ! (i + 1) ! ncur s) nfill - filled (N s ! j ! (i - 1) ! ncur s) nfill))
        - 0.5 * idy e * vc *
            (filled (N s ! (j + 1) ! i ! ncur s) nfill - filled (N s ! (j - 1) ! i ! ncur s) nfill)
        - w (integrate e p u v s) ! j ! i * (nc - bc)
        + At p *
            (idx e * idx e *
               (filled (N s ! j ! (i + 1) ! nprev s) nfill - 2 * np +
                filled (N s ! j ! (i - 1) ! nprev s) nfill) +
             idy e * idy e *
               (filled (N s ! (j + 1) ! i ! nprev s) nfill - 2 * np +
                filled (N s ! (j - 1) ! i ! nprev s) nfill))
        - Vm p * pc * nc / (ks p + nc)
        + m p * pc + g p * zc
        + gamma p * (ivlev p * pc * Rm p * (1 - exp (- ivlev p * pc)) * zc))) \<and>
   w (integrate e p u v s) ! j ! i =
     (idx e * (uc - filled (u ! j ! (i - 1)) (fill_value (ma_mean u))) +
      idy e * (vc - filled (v ! (j - 1) ! i) (fill_value (ma_mean v)))) / 10"
proof -
  have sh: "shape3 (Ny e) (Nx e) (N s)" and nx: "nnext s < 3"
    and shw: "shape2 (Ny e) (Nx e) (w s)"
    using wf by (simp_all add: wf_state_def slots_ok_def)
  have ji: "j < Ny e" "i < Nx e"
    using int by (simp_all add: interior_def)
  have upw: "w (integrate e p u v s) ! j ! i =
     (idx e * (uc - filled (u ! j ! (i - 1)) (fill_value (ma_mean u))) +
      idy e * (vc - filled (v ! (j - 1) ! i) (fill_value (ma_mean v)))) / 10"
    using int by (simp add: upwelling_nth [OF shw ji] w_cell_def vel)
  have "N (integrate e p u v s) ! j ! i ! nnext s =
        N_rhs e p u v (upwelling e u v (w s)) s j i"
    by (simp add: interior_cell_update [OF sh int nx])
  also have "\<dots> = Some (np + 2 * dt *
       (- (0.5 * idx e * uc *
            (filled (N s ! j ! (i + 1) ! ncur s) nfill - filled (N s ! j ! (i - 1) ! ncur s) nfill))
        - 0.5 * idy e * vc *
            (filled (N s ! (j + 1) ! i ! ncur s) nfill - filled (N s ! (j - 1) ! i ! ncur s) nfill)
        - upwelling e u v (w s) ! j ! i * (nc - bc)
        + At p *
            (idx e * idx e *
               (filled (N s ! j ! (i + 1) ! nprev s) nfill - 2 * np +
                filled (N s ! j ! (i - 1) ! nprev s) nfill) +
             idy e * idy e *
               (filled (N s ! (j + 1) ! i ! nprev s) nfill - 2 * np +
                filled (N s ! (j - 1) ! i ! nprev s) nfill))
        - Vm p * pc * nc / (ks p + nc)
        + m p * pc + g p * zc
        + gamma p * (ivlev p * pc * Rm p * (1 - exp (- ivlev p * pc)) * zc)))"
    unfolding N_rhs_def zonal_def meridional_def upwell_def diffx_def diffy_N_def
      uptake_def pmortality_def zmortality_def graze_def Let_def fill [symmetric]
    using dom by (simp add: vals vel)
  finally show ?thesis
    using upw by simp
qed

theorem N_update_formula_witness:
  "wf_state ex_env ex_state \<and> interior (Ny ex_env) 1 \<and> interior (Nx ex_env) 1 \<and>
   N (integrate ex_env ex_bio ex_u ex_v ex_state) ! 1 ! 1 ! 2 =
     Some (1 + 1200 *
       (- (1 / 2 * (1 / 1000) * (1 / 5) * (5 - 19 / 8))
        - 1 / 2 * (1 / 1000) * (1 / 20) * (2 - 2)
        - 7 / 800000 * (2 - 3)
        + 20 * (1 / 1000 * (1 / 1000) * (4 - 2 * 1 + 19 / 8) + 1 / 1000 * (1 / 1000) * (1 - 2 * 1 + 1))
        - 1 / 1000 * 1 * 2 / (1 + 2)
        + 1 / 2000 * 1 + 1 / 5000 * 1
        + 3 / 10 * (1 * 1 * (1 / 500) * (1 - exp (- 1)) * 1))) \<and>
   w (integrate ex_env ex_bio ex_u ex_v ex_state) ! 1 ! 1 = 7 / 800000"
proof -
  have int: "interior (Ny ex_env) 1" "interior (Nx ex_env) 1"
    by (simp_all add: interior_def ex_env_def)
  have vals: "N ex_state ! 1 ! 1 ! nprev ex_state = Some 1"
    "N ex_state ! 1 ! 1 ! ncur ex_state = Some 2"
    "P ex_state ! 1 ! 1 ! ncur ex_state = Some 1"
    "Z ex_state ! 1 ! 1 ! ncur ex_state = Some 1"
    "B ex_state ! 1 ! 1 ! ncur ex_state = Some 3"
    by (simp_all add: ex_state_def sea_def)
  have vel: "ex_u ! 1 ! 1 = Some (1 / 5)" "ex_v ! 1 ! 1 = Some (1 / 20)"
    by (simp_all add: ex_u_def ex_v_def)
  have dom: "ks ex_bio + 2 \<noteq> 0"
    by (simp add: ex_bio_def)
  have nb: "N ex_state ! 1 ! (1 + 1) ! ncur ex_state = Some 5"
    "N ex_state ! 1 ! (1 - 1) ! ncur ex_state = None"
    "N ex_state ! (1 + 1) ! 1 ! ncur ex_state = Some 2"
    "N ex_state ! (1 - 1) ! 1 ! ncur ex_state = Some 2"
    "N ex_state ! 1 ! (1 + 1) ! nprev ex_state = Some 4"
    "N ex_state ! 1 ! (1 - 1) ! nprev ex_state = None"
    "N ex_state ! (1 + 1) ! 1 ! nprev ex_state = Some 1"
    "N ex_state ! (1 - 1) ! 1 ! nprev ex_state = Some 1"
    "nnext ex_state = 2"
    by (simp_all add: ex_state_def sea_def land_def)
  have par: "idx ex_env = 1 / 1000" "idy ex_env = 1 / 1000" "Vm ex_bio = 1 / 1000"
    "ks ex_bio = 1" "m ex_bio = 1 / 2000" "g ex_bio = 1 / 5000" "gamma ex_bio = 3 / 10"
    "ivlev ex_bio = 1" "Rm ex_bio = 1 / 500" "At ex_bio = 20"
    by (simp_all add: ex_env_def ex_bio_def)
  note th = N_update_formula [OF ex_state_wf int vals vel dom ex_fill [symmetric],
      unfolded nb par ex_w filled.simps dt_def]
  show ?thesis
    using th ex_state_wf int ex_w by simp
qed

section \<open>C2: the meridional diffusion of \<open>P\<close> and \<open>Z\<close>\<close>

text \<open>
  Claim C2 says that the meridional diffusion of \<^verbatim>\<open>P\<close> and \<^verbatim>\<open>Z\<close> takes its south
  neighbour at the zonal index of the centre, as that of \<^verbatim>\<open>N\<close> does. The notebook reads
  \<^verbatim>\<open>P[jm, im, nprev]\<close> and \<^verbatim>\<open>Z[jm, im, nprev]\<close> there, the south-west neighbour. On
  \<open>ex_skew\<close> the three fields hold the same data, nothing moves and nothing reacts, and
  the south neighbour \<open>(0, 1)\<close> of the interior position holds \<open>1\<close> while the south-west
  one \<open>(0, 0)\<close> holds \<open>5\<close>: the update leaves \<^verbatim>\<open>N\<close> at \<open>1\<close> and writes
  \<open>1 + 2 dt At idy\<^sup>2 (1 - 2 + 5)\<close> into \<^verbatim>\<open>P\<close> and \<^verbatim>\<open>Z\<close>.
\<close>

theorem diffusion_P_southwest:
  "N ex_skew = P ex_skew \<and> N ex_skew = Z ex_skew \<and>
   N (integrate ex_env ex_still (zero_grid 3 3) (zero_grid 3 3) ex_skew) ! 1 ! 1 ! 2 = Some 1 \<and>
   P (integrate ex_env ex_still (zero_grid 3 3) (zero_grid 3 3) ex_skew) ! 1 ! 1 ! 2 =
     Some (1 + 1200 * (20 * (1 / 1000 * (1 / 1000) * (1 - 2 * 1 + 5)))) \<and>
   Z (integrate ex_env ex_still (zero_grid 3 3) (zero_grid 3 3) ex_skew) ! 1 ! 1 ! 2 =
     Some (1 + 1200 * (20 * (1 / 1000 * (1 / 1000) * (1 - 2 * 1 + 5)))) \<and>
   P ex_skew ! 0 ! 1 ! 0 = Some 1 \<and> P ex_skew ! 0 ! 0 ! 0 = Some 5"
proof -
  have sh: "shape3 3 3 (N ex_skew)" "shape3 3 3 (P ex_skew)" "shape3 3 3 (Z ex_skew)"
    by (simp_all add: shape3_def ex_skew_def sea_def)
  have int: "interior 3 1"
    by (simp add: interior_def)
  have nx: "nnext ex_skew = 2" "(2::nat) < 3"
    by (simp_all add: ex_skew_def)
  have w0: "upwelling ex_env (zero_grid 3 3) (zero_grid 3 3) (w ex_skew) ! 1 ! 1 = 0"
    by (rule upwelling_zero [OF _ int int]) (simp add: ex_skew_def shape2_replicate)
  have v0: "zero_grid 3 3 ! 1 ! 1 = Some 0"
    by (simp add: zero_grid_nth)
  have n: "N_rhs ex_env ex_still (zero_grid 3 3) (zero_grid 3 3)
             (upwelling ex_env (zero_grid 3 3) (zero_grid 3 3) (w ex_skew)) ex_skew 1 1 = Some 1"
    unfolding N_rhs_def zonal_def meridional_def upwell_def diffx_def diffy_N_def
      uptake_def pmortality_def zmortality_def graze_def Let_def w0 v0
    by (simp add: ex_skew_def sea_def ex_still_def ex_env_def)
  have p: "P_rhs ex_env ex_still (zero_grid 3 3) (zero_grid 3 3) ex_skew 1 1 = Some (137 / 125)"
    unfolding P_rhs_def zonal_def meridional_def diffx_def diffy_PZ_def
      uptake_def pmortality_def binput_def graze_def Let_def v0
    by (simp add: ex_skew_def sea_def ex_still_def ex_env_def dt_def)
  have z: "Z_rhs ex_env ex_still (zero_grid 3 3) (zero_grid 3 3) ex_skew 1 1 = Some (137 / 125)"
    unfolding Z_rhs_def zonal_def meridional_def diffx_def diffy_PZ_def
      zmortality_def graze_def Let_def v0
    by (simp add: ex_skew_def sea_def ex_still_def ex_env_def dt_def)
  have "N (integrate ex_env ex_still (zero_grid 3 3) (zero_grid 3 3) ex_skew) ! 1 ! 1 ! 2 = Some 1"
    using interior_cell_update [OF sh(1) int int nx(2)] n by (simp add: nx(1))
  moreover have "P (integrate ex_env ex_still (zero_grid 3 3) (zero_grid 3 3) ex_skew) ! 1 ! 1 ! 2
      = Some (137 / 125)"
    using interior_cell_update [OF sh(2) int int nx(2)] p by (simp add: nx(1))
  moreover have "Z (integrate ex_env ex_still (zero_grid 3 3) (zero_grid 3 3) ex_skew) ! 1 ! 1 ! 2
      = Some (137 / 125)"
    using interior_cell_update [OF sh(3) int int nx(2)] z by (simp add: nx(1))
  moreover have "N ex_skew = P ex_skew" "N ex_skew = Z ex_skew"
    "P ex_skew ! 0 ! 1 ! 0 = Some 1" "P ex_skew ! 0 ! 0 ! 0 = Some 5"
    by (simp_all add: ex_skew_def sea_def)
  ultimately show ?thesis by simp
qed

section \<open>C3: the fractional index of the forcing interpolation\<close>

text \<open>
  Claim C3 says that the fractional index is \<open>(t - t0_frc) / dt_frc\<close>. The notebook
  computes \<^verbatim>\<open>fidx = t / frc_dt\<close>, without subtracting the first forcing timestamp. On
  \<open>ex_late\<close>, whose forcing starts at \<open>600\<close>, the first step time \<open>600\<close> gets the index
  \<open>1\<close> and so the second sample, not the first. The two agree when the forcing starts
  at time \<open>0\<close>.
\<close>

theorem forcing_index_from_zero:
  "frc_dt ex_late = np_mean (np_diff (frc_time ex_late)) \<and>
   hd (frc_time ex_late) = 600 \<and> hd (times ex_late) = 600 \<and>
   forcing_index ex_late 600 = Inr (1, 0) \<and>
   forcing ex_late 600 = Inr (frc_u ex_late ! 1, frc_v ex_late ! 1) \<and>
   frc_u ex_late ! 1 \<noteq> frc_u ex_late ! 0"
  using ex_late_frc_dt
  by (simp add: ex_late_times ex_late_forcing_600)
     (simp add: ex_late_def forcing_index_def py_int_def const_grid_def)

section \<open>C4: the update of the benthos\<close>

text \<open>
  Claim C4. In every step, at every interior position where \<^verbatim>\<open>B\<close> (previous and
  current slot), \<^verbatim>\<open>N\<close> and \<^verbatim>\<open>P\<close> (current slot) are valid, the update phase writes
  \<open>previous[B] + 2 dt (w (N - B) + alpha P)\<close> into the next slot of \<^verbatim>\<open>B\<close>: there is no
  advection and no diffusion term, and the velocity enters through \<open>w\<close> only. Where the
  other inputs of \<^verbatim>\<open>P\<close> are valid too, the value written into the next slot of \<^verbatim>\<open>P\<close>
  in the same step subtracts the same flux \<open>alpha P\<close>.
\<close>

theorem B_update_formula:
  assumes wf: "wf_state e s"
    and int: "interior (Ny e) j" "interior (Nx e) i"
    and vals: "B s ! j ! i ! nprev s = Some bp" "B s ! j ! i ! ncur s = Some bc"
      "N s ! j ! i ! ncur s = Some nc" "P s ! j ! i ! ncur s = Some pc"
  shows "B (integrate e p u v s) ! j ! i ! nnext s =
           Some (bp + 2 * dt * (w (integrate e p u v s) ! j ! i * (nc - bc) + alpha p * pc)) \<and>
         (P s ! j ! i ! nprev s = Some pp \<and> Z s ! j ! i ! ncur s = Some zc \<and>
          u ! j ! i = Some uc \<and> v ! j ! i = Some vc \<and> ks p + nc \<noteq> 0 \<and>
          pfill = fill_value (ma_mean (slot3 (P s) (ncur s))) \<longrightarrow>
          P (integrate e p u v s) ! j ! i ! nnext s =
            Some (pp + 2 * dt *
              (- (0.5 * idx e * uc *
                   (filled (P s ! j ! (i + 1) ! ncur s) pfill -
                    filled (P s ! j ! (i - 1) ! ncur s) pfill))
               - 0.5 * idy e * vc *
                   (filled (P s ! (j + 1) ! i ! ncur s) pfill -
                    filled (P s ! (j - 1) ! i ! ncur s) pfill)
               + At p *
                   (idx e * idx e *
                      (filled (P s ! j ! (i + 1) ! nprev s) pfill - 2 * pp +
                       filled (P s ! j ! (i - 1) ! nprev s) pfill) +
                    idy e * idy e *
                      (filled (P s ! (j + 1) ! i ! nprev s) pfill - 2 * pp +
                       filled (P s ! (j - 1) ! (i - 1) ! nprev s) pfill))
               + Vm p * pc * nc / (ks p + nc)
               - m p * pc
               - ivlev p * pc * Rm p * (1 - exp (- ivlev p * pc)) * zc
               - alpha p * pc)))"
proof (intro conjI impI)
  have sh: "shape3 (Ny e) (Nx e) (B s)" "shape3 (Ny e) (Nx e) (P s)" and nx: "nnext s < 3"
    using wf by (simp_all add: wf_state_def slots_ok_def)
  have "B (integrate e p u v s) ! j ! i ! nnext s = B_rhs p (upwelling e u v (w s)) s j i"
    by (simp add: interior_cell_update [OF sh(1) int nx])
  also have "\<dots> = Some (bp + 2 * dt * (upwelling e u v (w s) ! j ! i * (nc - bc) + alpha p * pc))"
    unfolding B_rhs_def upwell_def binput_def by (simp add: vals)
  finally show "B (integrate e p u v s) ! j ! i ! nnext s =
      Some (bp + 2 * dt * (w (integrate e p u v s) ! j ! i * (nc - bc) + alpha p * pc))"
    by simp
  assume a: "P s ! j ! i ! nprev s = Some pp \<and> Z s ! j ! i ! ncur s = Some zc \<and>
          u ! j ! i = Some uc \<and> v ! j ! i = Some vc \<and> ks p + nc \<noteq> 0 \<and>
          pfill = fill_value (ma_mean (slot3 (P s) (ncur s)))"
  then have pfill: "pfill = fill_value (ma_mean (slot3 (P s) (ncur s)))" by simp
  have "P (integrate e p u v s) ! j ! i ! nnext s = P_rhs e p u v s j i"
    by (simp add: interior_cell_update [OF sh(2) int nx])
  also have "\<dots> = Some (pp + 2 * dt *
              (- (0.5 * idx e * uc *
                   (filled (P s ! j ! (i + 1) ! ncur s) pfill -
                    filled (P s ! j ! (i - 1) ! ncur s) pfill))
               - 0.5 * idy e * vc *
                   (filled (P s ! (j + 1) ! i ! ncur s) pfill -
                    filled (P s ! (j - 1) ! i ! ncur s) pfill)
               + At p *
                   (idx e * idx e *
                      (filled (P s ! j ! (i + 1) ! nprev s) pfill - 2 * pp +
                       filled (P s ! j ! (i - 1) ! nprev s) pfill) +
                    idy e * idy e *
                      (filled (P s ! (j + 1) ! i ! nprev s) pfill - 2 * pp +
                       filled (P s ! (j - 1) ! (i - 1) ! nprev s) pfill))
               + Vm p * pc * nc / (ks p + nc)
               - m p * pc
               - ivlev p * pc * Rm p * (1 - exp (- ivlev p * pc)) * zc
               - alpha p * pc))"
    unfolding P_rhs_def zonal_def meridional_def diffx_def diffy_PZ_def
      uptake_def pmortality_def graze_def binput_def Let_def pfill [symmetric]
    using a by (simp add: vals)
  finally show "P (integrate e p u v s) ! j ! i ! nnext s = Some (pp + 2 * dt *
              (- (0.5 * idx e * uc *
                   (filled (P s ! j ! (i + 1) ! ncur s) pfill -
                    filled (P s ! j ! (i - 1) ! ncur s) pfill))
               - 0.5 * idy e * vc *
                   (filled (P s ! (j + 1) ! i ! ncur s) pfill -
                    filled (P s ! (j - 1) ! i ! ncur s) pfill)
               + At p *
                   (idx e * idx e *
                      (filled (P s ! j ! (i + 1) ! nprev s) pfill - 2 * pp +
                       filled (P s ! j ! (i - 1) ! nprev s) pfill) +
                    idy e * idy e *
                      (filled (P s ! (j + 1) ! i ! nprev s) pfill - 2 * pp +
                       filled (P s ! (j - 1) ! (i - 1) ! nprev s) pfill))
               + Vm p * pc * nc / (ks p + nc)
               - m p * pc
               - ivlev p * pc * Rm p * (1 - exp (- ivlev p * pc)) * zc
               - alpha p * pc))" .
qed

theorem B_update_formula_witness:
  "wf_state ex_env ex_state \<and> interior (Ny ex_env) 1 \<and> interior (Nx ex_env) 1 \<and>
   B (integrate ex_env ex_bio ex_u ex_v ex_state) ! 1 ! 1 ! 2 =
     Some (1 + 1200 * (7 / 800000 * (2 - 3) + 1 / 4000 * 1)) \<and>
   P (integrate ex_env ex_bio ex_u ex_v ex_state) ! 1 ! 1 ! 2 =
     Some (1 + 1200 *
       (- (1 / 2 * (1 / 1000) * (1 / 5) * (1 - 1))
        - 1 / 2 * (1 / 1000) * (1 / 20) * (1 - 1)
        + 20 * (1 / 1000 * (1 / 1000) * (1 - 2 * 1 + 1) + 1 / 1000 * (1 / 1000) * (1 - 2 * 1 + 1))
        + 1 / 1000 * 1 * 2 / (1 + 2)
        - 1 / 2000 * 1
        - 1 * 1 * (1 / 500) * (1 - exp (- 1)) * 1
        - 1 / 4000 * 1))"
proof -
  have int: "interior (Ny ex_env) 1" "interior (Nx ex_env) 1"
    by (simp_all add: interior_def ex_env_def)
  have vals: "B ex_state ! 1 ! 1 ! nprev ex_state = Some 1"
    "B ex_state ! 1 ! 1 ! ncur ex_state = Some 3"
    "N ex_state ! 1 ! 1 ! ncur ex_state = Some 2"
    "P ex_state ! 1 ! 1 ! ncur ex_state = Some 1"
    by (simp_all add: ex_state_def sea_def)
  have more: "P ex_state ! 1 ! 1 ! nprev ex_state = Some 1 \<and>
    Z ex_state ! 1 ! 1 ! ncur ex_state = Some 1 \<and>
    ex_u ! 1 ! 1 = Some (1 / 5) \<and> ex_v ! 1 ! 1 = Some (1 / 20) \<and> ks ex_bio + 2 \<noteq> 0 \<and>
    1 = fill_value (ma_mean (slot3 (P ex_state) (ncur ex_state)))"
    by (simp add: ex_pfill) (simp add: ex_state_def sea_def ex_u_def ex_v_def ex_bio_def)
  have nb: "P ex_state ! 1 ! (1 + 1) ! ncur ex_state = Some 1"
    "P ex_state ! 1 ! (1 - 1) ! ncur ex_state = None"
    "P ex_state ! (1 + 1) ! 1 ! ncur ex_state = Some 1"
    "P ex_state ! (1 - 1) ! 1 ! ncur ex_state = Some 1"
    "P ex_state ! 1 ! (1 + 1) ! nprev ex_state = Some 1"
    "P ex_state ! 1 ! (1 - 1) ! nprev ex_state = None"
    "P ex_state ! (1 + 1) ! 1 ! nprev ex_state = Some 1"
    "P ex_state ! (1 - 1) ! (1 - 1) ! nprev ex_state = Some 1"
    "nnext ex_state = 2"
    by (simp_all add: ex_state_def sea_def land_def)
  have par: "idx ex_env = 1 / 1000" "idy ex_env = 1 / 1000" "Vm ex_bio = 1 / 1000"
    "ks ex_bio = 1" "m ex_bio = 1 / 2000" "alpha ex_bio = 1 / 4000"
    "ivlev ex_bio = 1" "Rm ex_bio = 1 / 500" "At ex_bio = 20"
    by (simp_all add: ex_env_def ex_bio_def)
  note th = B_update_formula [where e = ex_env and s = ex_state and p = ex_bio and u = ex_u
      and v = ex_v and pp = 1 and zc = 1 and uc = "1 / 5" and vc = "1 / 20" and pfill = 1,
      OF ex_state_wf int vals, unfolded nb par ex_w filled.simps dt_def]
  show ?thesis
    using th more ex_state_wf int by simp
qed

section \<open>C5: the floors hold after every step\<close>



section \<open>C6: the averaging step\<close>

text \<open>
  Claim C6. When the step index is a multiple of \<^verbatim>\<open>Navg\<close>, the averaging replaces, at
  every position of \<^verbatim>\<open>N\<close>, \<^verbatim>\<open>P\<close> and \<^verbatim>\<open>Z\<close>, the next slot by
  \<open>0.5 (next + current)\<close> and then the current slot by \<open>0.5 (previous + current)\<close>, with
  the current value from before the averaging; the previous slot and the whole of \<^verbatim>\<open>B\<close>
  are unchanged. With previous \<open>1\<close>, current \<open>2\<close> and next \<open>3\<close> the results are \<open>2.5\<close>
  and \<open>1.5\<close>.
\<close>

theorem mode_filter:
  assumes wf: "wf_state e s" and cad: "n mod Navg = 0" and ji: "j < Ny e" "i < Nx e"
  shows "N (averaging n s) ! j ! i ! nnext s =
           ma_mul (Some 0.5) (ma_add (N s ! j ! i ! nnext s) (N s ! j ! i ! ncur s)) \<and>
         N (averaging n s) ! j ! i ! ncur s =
           ma_mul (Some 0.5) (ma_add (N s ! j ! i ! nprev s) (N s ! j ! i ! ncur s)) \<and>
         N (averaging n s) ! j ! i ! nprev s = N s ! j ! i ! nprev s \<and>
         P (averaging n s) ! j ! i ! nnext s =
           ma_mul (Some 0.5) (ma_add (P s ! j ! i ! nnext s) (P s ! j ! i ! ncur s)) \<and>
         P (averaging n s) ! j ! i ! ncur s =
           ma_mul (Some 0.5) (ma_add (P s ! j ! i ! nprev s) (P s ! j ! i ! ncur s)) \<and>
         P (averaging n s) ! j ! i ! nprev s = P s ! j ! i ! nprev s \<and>
         Z (averaging n s) ! j ! i ! nnext s =
           ma_mul (Some 0.5) (ma_add (Z s ! j ! i ! nnext s) (Z s ! j ! i ! ncur s)) \<and>
         Z (averaging n s) ! j ! i ! ncur s =
           ma_mul (Some 0.5) (ma_add (Z s ! j ! i ! nprev s) (Z s ! j ! i ! ncur s)) \<and>
         Z (averaging n s) ! j ! i ! nprev s = Z s ! j ! i ! nprev s \<and>
         B (averaging n s) = B s"
proof -
  have sl: "nprev s < 3" "ncur s < 3" "nnext s < 3" "distinct [nprev s, ncur s, nnext s]"
    using wf by (simp_all add: wf_state_def slots_ok_def)
  have field: "average (nprev s) (ncur s) (nnext s) F ! j ! i ! nnext s =
        ma_mul (Some 0.5) (ma_add (F ! j ! i ! nnext s) (F ! j ! i ! ncur s)) \<and>
      average (nprev s) (ncur s) (nnext s) F ! j ! i ! ncur s =
        ma_mul (Some 0.5) (ma_add (F ! j ! i ! nprev s) (F ! j ! i ! ncur s)) \<and>
      average (nprev s) (ncur s) (nnext s) F ! j ! i ! nprev s = F ! j ! i ! nprev s"
    if "shape3 (Ny e) (Nx e) F" for F
  proof -
    have len: "length F = Ny e" "length (F ! j) = Nx e" "length (F ! j ! i) = 3"
      using shape3_nth [OF that ji] by simp_all
    have "average (nprev s) (ncur s) (nnext s) F ! j ! i =
          average_cell (nprev s) (ncur s) (nnext s) (F ! j ! i)"
      using ji len by (simp add: average_nth)
    then show ?thesis
      using average_cell_nth [OF len(3) sl] by simp
  qed
  have sh: "shape3 (Ny e) (Nx e) (N s)" "shape3 (Ny e) (Nx e) (P s)" "shape3 (Ny e) (Nx e) (Z s)"
    using wf by (simp_all add: wf_state_def)
  show ?thesis
    using field [OF sh(1)] field [OF sh(2)] field [OF sh(3)] cad by simp
qed

theorem mode_filter_witness:
  "wf_state ex_env ex_state \<and> 0 mod Navg = 0 \<and>
   N ex_state ! 1 ! 1 = [Some 1, Some 2, Some 3] \<and>
   nprev ex_state = 0 \<and> ncur ex_state = 1 \<and> nnext ex_state = 2 \<and>
   N (averaging 0 ex_state) ! 1 ! 1 ! 2 = Some 2.5 \<and>
   N (averaging 0 ex_state) ! 1 ! 1 ! 1 = Some 1.5 \<and>
   N (averaging 0 ex_state) ! 1 ! 1 ! 0 = Some 1 \<and>
   B (averaging 0 ex_state) = B ex_state"
proof -
  have ji: "1 < Ny ex_env" "1 < Nx ex_env"
    by (simp_all add: ex_env_def)
  have cad: "0 mod Navg = 0"
    by simp
  have vals: "N ex_state ! 1 ! 1 = [Some 1, Some 2, Some 3]"
    "nprev ex_state = 0" "ncur ex_state = 1" "nnext ex_state = 2"
    by (simp_all add: ex_state_def sea_def)
  note th = mode_filter [OF ex_state_wf cad ji, unfolded vals]
  show ?thesis
    using th ex_state_wf vals by simp
qed

section \<open>C7: the outermost ring keeps its initial values\<close>

text \<open>
  Claim C7. Let \<open>(j, i)\<close> be a position of the outermost ring where, initially, the
  three slots of each field hold the same entry, at or above the floor of the field (or
  masked). Then in every state that the generator yields, all three slots of all four
  fields at \<open>(j, i)\<close> still hold the initial entry: the update writes interior positions
  only, the clamp and the averaging leave the position as it is. The initialisation of
  the notebook leaves every position so (\<open>initial_field_settled\<close>).
\<close>

theorem ring_retained:
  assumes "shape3 (Ny e) (Nx e) N0" "shape3 (Ny e) (Nx e) P0"
    "shape3 (Ny e) (Nx e) Z0" "shape3 (Ny e) (Nx e) B0"
    and "ring (Ny e) (Nx e) j i"
    and "settled (min_N e) (N0 ! j ! i)" "settled (min_P e) (P0 ! j ! i)"
    and "settled (min_Z e) (Z0 ! j ! i)" "settled (min_B e) (B0 ! j ! i)"
    and "Inr s' \<in> set (npz e p N0 P0 Z0 B0)"
  shows "N s' ! j ! i = N0 ! j ! i \<and> P s' ! j ! i = P0 ! j ! i \<and>
         Z s' ! j ! i = Z0 ! j ! i \<and> B s' ! j ! i = B0 ! j ! i"
  using trace_ring [OF init_wf [OF assms(1-4)] npz_trace_of [OF assms(10)], of j i] assms(5-9)
  by simp

theorem ring_retained_witness:
  "shape3 (Ny ex_env) (Nx ex_env) ex_N0 \<and> shape3 (Ny ex_env) (Nx ex_env) ex_F0 \<and>
   ring (Ny ex_env) (Nx ex_env) 1 0 \<and>
   settled (min_N ex_env) (ex_N0 ! 1 ! 0) \<and> settled (min_P ex_env) (ex_F0 ! 1 ! 0) \<and>
   settled (min_Z ex_env) (ex_F0 ! 1 ! 0) \<and> settled (min_B ex_env) (ex_F0 ! 1 ! 0) \<and>
   Inr ex_first \<in> set (npz ex_env ex_still ex_N0 ex_F0 ex_F0 ex_F0) \<and>
   N ex_first ! 1 ! 0 = sea 2 2 2 \<and> P ex_first ! 1 ! 0 = sea 1 1 1 \<and>
   Z ex_first ! 1 ! 0 = sea 1 1 1 \<and> B ex_first ! 1 ! 0 = sea 1 1 1"
proof -
  have sh: "shape3 (Ny ex_env) (Nx ex_env) ex_N0" "shape3 (Ny ex_env) (Nx ex_env) ex_F0"
    using ex_shapes by (simp_all add: ex_env_def)
  have rg: "ring (Ny ex_env) (Nx ex_env) 1 0"
    by (simp add: ring_def ex_env_def)
  have st: "settled (min_N ex_env) (ex_N0 ! 1 ! 0)" "settled (min_P ex_env) (ex_F0 ! 1 ! 0)"
    "settled (min_Z ex_env) (ex_F0 ! 1 ! 0)" "settled (min_B ex_env) (ex_F0 ! 1 ! 0)"
    by (simp_all add: settled_def above_def ex_env_def ex_N0_def ex_F0_def sea_def)
  have vals: "ex_N0 ! 1 ! 0 = sea 2 2 2" "ex_F0 ! 1 ! 0 = sea 1 1 1"
    by (simp_all add: ex_N0_def ex_F0_def)
  show ?thesis
    using ring_retained [OF sh(1) sh(2) sh(2) sh(2) rg st ex_first_yield] sh rg st ex_first_yield
      vals
    by simp
qed

section \<open>C8: no biology and no flow\<close>

text \<open>
  Claim C8 says that with \<^verbatim>\<open>Vm = m = Rm = g = alpha = 0\<close> and zero velocity all fields
  keep their initial values. The diffusion term \<open>At (diffx + diffy)\<close> does not depend on
  any of these: with the default \<^verbatim>\<open>At = 20\<close> and the step of \<open>ex_N0\<close> in the first
  column, the first step moves \<^verbatim>\<open>N\<close> at the interior position from \<open>1\<close> to \<open>1.012\<close>
  (the update writes \<open>1.024\<close>, the averaging of step \<open>0\<close> halves the change).
\<close>

theorem zero_biology_counterexample:
  "Vm ex_still = 0 \<and> m ex_still = 0 \<and> Rm ex_still = 0 \<and> g ex_still = 0 \<and>
   alpha ex_still = 0 \<and> zero_velocity ex_env \<and>
   Inr ex_first \<in> set (npz ex_env ex_still ex_N0 ex_F0 ex_F0 ex_F0) \<and>
   ex_N0 ! 1 ! 1 ! 2 = Some 1 \<and> N ex_first ! 1 ! 1 ! 2 = Some (253 / 250)"
proof -
  have par: "Vm ex_still = 0" "m ex_still = 0" "Rm ex_still = 0" "g ex_still = 0"
    "alpha ex_still = 0"
    by (simp_all add: ex_still_def)
  have init: "ex_N0 ! 1 ! 1 = [Some 1, Some 1, Some 1]"
    by (simp add: ex_N0_def sea_def)
  have len: "(1::nat) < length ex_N0" "1 < length (ex_N0 ! 1)" "interior (length ex_N0) 1"
    "interior (length (ex_N0 ! 1)) 1"
    by (simp_all add: ex_N0_def interior_def)
  have upd: "set_interior
       (N_rhs ex_env (to_seconds ex_still) (zero_grid 3 3) (zero_grid 3 3)
          (upwelling ex_env (zero_grid 3 3) (zero_grid 3 3)
             (w (init_state ex_env ex_N0 ex_F0 ex_F0 ex_F0)))
          (init_state ex_env ex_N0 ex_F0 ex_F0 ex_F0)) 2 ex_N0 ! 1 ! 1
     = [Some 1, Some 1, Some (128 / 125)]"
    using len ex_first_N_rhs init by (simp add: set_interior_nth)
  have "N ex_first ! 1 ! 1 = [Some 1, Some 1, Some (253 / 250)]"
    unfolding ex_first_def using len upd
    by (simp add: average_nth clamp_cell average_cell_def ex_env_def)
  then have "N ex_first ! 1 ! 1 ! 2 = Some (253 / 250)"
    by simp
  then show ?thesis
    using par ex_zero_velocity ex_first_yield init by simp
qed

text \<open>
  Claim C8, amended. With \<^verbatim>\<open>Vm = m = Rm = g = alpha = 0\<close>, zero velocity in every forcing
  sample, and also \<^verbatim>\<open>At = 0\<close>, every state that the generator yields holds the initial
  fields, at every position and in every slot, provided the initial fields are as the
  notebook initialises them: in each field the three slots are equal and at or above
  the floor, the four fields share their mask (\<open>initial_all_calm\<close>), and \<open>ks + N\<close> is
  not zero (\<open>ks\<close> positive, the floor of \<^verbatim>\<open>N\<close> not negative).
\<close>

theorem zero_biology_steady:
  assumes "shape3 (Ny e) (Nx e) N0" "shape3 (Ny e) (Nx e) P0"
    "shape3 (Ny e) (Nx e) Z0" "shape3 (Ny e) (Nx e) B0"
    and "all_calm e N0 P0 Z0 B0"
    and "zero_velocity e"
    and "Vm p = 0" "m p = 0" "Rm p = 0" "g p = 0" "alpha p = 0" "At p = 0"
    and "0 < ks p" "0 \<le> min_N e"
    and "Inr s' \<in> set (npz e p N0 P0 Z0 B0)"
  shows "N s' = N0 \<and> P s' = P0 \<and> Z s' = Z0 \<and> B s' = B0"
proof -
  have par: "Vm (to_seconds p) = 0" "m (to_seconds p) = 0" "Rm (to_seconds p) = 0"
    "g (to_seconds p) = 0" "alpha (to_seconds p) = 0" "At (to_seconds p) = 0"
    "0 < ks (to_seconds p)"
    using assms(7-13) by (simp_all add: to_seconds_def)
  have calm: "all_calm e (N (init_state e N0 P0 Z0 B0)) (P (init_state e N0 P0 Z0 B0))
      (Z (init_state e N0 P0 Z0 B0)) (B (init_state e N0 P0 Z0 B0))"
    using assms(5) by simp
  show ?thesis
    using trace_still [OF init_wf [OF assms(1-4)] calm assms(6) par assms(14)
        npz_trace_of [OF assms(15)]]
    by simp
qed

theorem zero_biology_steady_witness:
  "shape3 (Ny ex_env) (Nx ex_env) ex_N0 \<and> shape3 (Ny ex_env) (Nx ex_env) ex_F0 \<and>
   all_calm ex_env ex_N0 ex_F0 ex_F0 ex_F0 \<and> zero_velocity ex_env \<and>
   Vm ex_nomix = 0 \<and> m ex_nomix = 0 \<and> Rm ex_nomix = 0 \<and> g ex_nomix = 0 \<and>
   alpha ex_nomix = 0 \<and> At ex_nomix = 0 \<and> 0 < ks ex_nomix \<and> 0 \<le> min_N ex_env \<and>
   Inr ex_steady \<in> set (npz ex_env ex_nomix ex_N0 ex_F0 ex_F0 ex_F0) \<and>
   N ex_steady = ex_N0 \<and> P ex_steady = ex_F0 \<and> Z ex_steady = ex_F0 \<and> B ex_steady = ex_F0"
proof -
  have sh: "shape3 (Ny ex_env) (Nx ex_env) ex_N0" "shape3 (Ny ex_env) (Nx ex_env) ex_F0"
    using ex_shapes by (simp_all add: ex_env_def)
  have par: "Vm ex_nomix = 0" "m ex_nomix = 0" "Rm ex_nomix = 0" "g ex_nomix = 0"
    "alpha ex_nomix = 0" "At ex_nomix = 0" "0 < ks ex_nomix" "0 \<le> min_N ex_env"
    by (simp_all add: ex_nomix_def ex_env_def)
  show ?thesis
    using zero_biology_steady [OF sh(1) sh(2) sh(2) sh(2) ex_all_calm ex_zero_velocity par
        ex_steady_yield]
      sh ex_all_calm ex_zero_velocity par ex_steady_yield
    by simp
qed

section \<open>C9: the bracketing samples of every step time\<close>

text \<open>
  Claim C9 says that for every step time of the run both bracketing samples exist. On
  \<open>ex_late\<close> the step time \<open>1200\<close>, which is before the last forcing timestamp \<open>1800\<close>,
  gets the index \<open>2\<close>, and reading sample \<open>3\<close> of three raises \<^verbatim>\<open>IndexError\<close>: the run
  ends with that exception at its second step. When the forcing starts at time \<open>0\<close>
  the samples of every step time do exist (\<open>forcing_in_range\<close>).
\<close>

theorem forcing_past_the_end:
  "frc_dt ex_late = np_mean (np_diff (frc_time ex_late)) \<and>
   times ex_late = [600, 1200] \<and> last (frc_time ex_late) = 1800 \<and>
   length (frc_u ex_late) = 3 \<and>
   forcing_index ex_late 1200 = Inr (2, 0) \<and>
   forcing ex_late 1200 = Inl IndexError \<and>
   last (npz ex_late ex_still ex_N0 ex_F0 ex_F0 ex_F0) = Inl IndexError"
proof -
  have "forcing_index ex_late 1200 = Inr (2, 0)" "last (frc_time ex_late) = 1800"
    "length (frc_u ex_late) = 3" "frc_time ex_late \<noteq> []"
    by (simp_all add: ex_late_def forcing_index_def py_int_def)
  moreover have "last (npz ex_late ex_still ex_N0 ex_F0 ex_F0 ex_F0) = Inl IndexError"
    using \<open>frc_time ex_late \<noteq> []\<close>
    by (simp add: npz_def ex_late_times npz_step_def ex_late_forcing_600 ex_late_forcing_1200
        const_grid_shape ex_late_dims)
  ultimately show ?thesis
    using ex_late_frc_dt by (simp add: ex_late_times ex_late_forcing_1200)
qed

section \<open>C10: the cadence of the averaging\<close>

text \<open>
  Claim C10. The step index of the averaging test \<^verbatim>\<open>not np.mod(n, Navg)\<close> is the
  position of the step in the run, counted from \<open>0\<close>: the \<open>k\<close>-th state that the
  generator yields (\<open>k = 0, 1, ...\<close>) is the clamped update of the state before it (the
  initial state for \<open>k = 0\<close>, the rotated previous yield otherwise) with the forcing of the
  \<open>k\<close>-th step time, averaged exactly when \<open>24\<close> divides \<open>k\<close>. So the very first yield
  is averaged, then those of the steps \<open>24, 48, ...\<close>, and none in between.
\<close>

theorem filter_cadence:
  assumes "k < length (npz e p N0 P0 Z0 B0)" and "npz e p N0 P0 Z0 B0 ! k = Inr s'"
  shows "\<exists>s u v c. k < length (times e) \<and> forcing e (times e ! k) = Inr (u, v) \<and>
           (k = 0 \<longrightarrow> s = init_state e N0 P0 Z0 B0) \<and>
           (0 < k \<longrightarrow> (\<exists>sp. npz e p N0 P0 Z0 B0 ! (k - 1) = Inr sp \<and> s = cycle sp)) \<and>
           c = boundary e (integrate e (to_seconds p) u v s) \<and>
           s' = (if 24 dvd k
                 then c\<lparr>N := average (nprev c) (ncur c) (nnext c) (N c),
                        P := average (nprev c) (ncur c) (nnext c) (P c),
                        Z := average (nprev c) (ncur c) (nnext c) (Z c)\<rparr>
                 else c)"
proof -
  have ne: "frc_time e \<noteq> []"
  proof
    assume "frc_time e = []"
    then have "npz e p N0 P0 Z0 B0 = [Inl IndexError]"
      by (simp add: npz_def)
    then show False using assms by simp
  qed
  then have eq: "npz e p N0 P0 Z0 B0 =
      npz_trace e (to_seconds p) (enumerate 0 (times e)) (init_state e N0 P0 Z0 B0)"
    by (simp add: npz_def)
  from trace_nth [OF assms [unfolded eq]] obtain s where k: "k < length (times e)"
    and st: "npz_step e (to_seconds p) k (times e ! k) s = Inr s'"
    and first: "k = 0 \<longrightarrow> s = init_state e N0 P0 Z0 B0"
    and later: "0 < k \<longrightarrow> (\<exists>sp. npz e p N0 P0 Z0 B0 ! (k - 1) = Inr sp \<and> s = cycle sp)"
    unfolding eq by auto
  from st obtain u v where frc: "forcing e (times e ! k) = Inr (u, v)"
    and s': "s' = averaging k (boundary e (integrate e (to_seconds p) u v s))"
    by (rule npz_step_Inr)
  define c where "c = boundary e (integrate e (to_seconds p) u v s)"
  have "s' = (if 24 dvd k
                 then c\<lparr>N := average (nprev c) (ncur c) (nnext c) (N c),
                        P := average (nprev c) (ncur c) (nnext c) (P c),
                        Z := average (nprev c) (ncur c) (nnext c) (Z c)\<rparr>
                 else c)"
    unfolding s' c_def [symmetric] by (simp add: averaging_def Navg_def dvd_eq_mod_eq_0)
  then show ?thesis
    using k frc first later c_def by blast
qed

theorem filter_cadence_witness:
  "0 < length (npz ex_env ex_still ex_N0 ex_F0 ex_F0 ex_F0) \<and>
   npz ex_env ex_still ex_N0 ex_F0 ex_F0 ex_F0 ! 0 = Inr ex_first \<and>
   npz ex_env ex_still ex_N0 ex_F0 ex_F0 ex_F0 ! 1 = Inr ex_second \<and>
   times ex_env ! 0 = 0 \<and>
   (\<exists>c. c = boundary ex_env (integrate ex_env (to_seconds ex_still) (zero_grid 3 3)
              (zero_grid 3 3) (init_state ex_env ex_N0 ex_F0 ex_F0 ex_F0)) \<and>
        ex_first = c\<lparr>N := average (nprev c) (ncur c) (nnext c) (N c),
                     P := average (nprev c) (ncur c) (nnext c) (P c),
                     Z := average (nprev c) (ncur c) (nnext c) (Z c)\<rparr>) \<and>
   ex_second = boundary ex_env (integrate ex_env (to_seconds ex_still) (zero_grid 3 3)
                 (zero_grid 3 3) (cycle ex_first))"
proof -
  have len: "0 < length (npz ex_env ex_still ex_N0 ex_F0 ex_F0 ex_F0)"
    and nth: "npz ex_env ex_still ex_N0 ex_F0 ex_F0 ex_F0 ! 0 = Inr ex_first"
      "npz ex_env ex_still ex_N0 ex_F0 ex_F0 ex_F0 ! 1 = Inr ex_second"
    by (simp_all add: ex_run)
  have t0: "times ex_env ! 0 = 0"
    by (simp add: ex_times)
  from filter_cadence [OF len nth(1)] obtain s u v c where
    frc: "forcing ex_env (times ex_env ! 0) = Inr (u, v)"
    and s: "s = init_state ex_env ex_N0 ex_F0 ex_F0 ex_F0"
    and c: "c = boundary ex_env (integrate ex_env (to_seconds ex_still) u v s)"
    and f: "ex_first = c\<lparr>N := average (nprev c) (ncur c) (nnext c) (N c),
                     P := average (nprev c) (ncur c) (nnext c) (P c),
                     Z := average (nprev c) (ncur c) (nnext c) (Z c)\<rparr>"
    by auto
  from frc have uv: "u = zero_grid 3 3" "v = zero_grid 3 3"
    by (auto simp: t0 ex_forcing_0)
  have "\<exists>c. c = boundary ex_env (integrate ex_env (to_seconds ex_still) (zero_grid 3 3)
              (zero_grid 3 3) (init_state ex_env ex_N0 ex_F0 ex_F0 ex_F0)) \<and>
        ex_first = c\<lparr>N := average (nprev c) (ncur c) (nnext c) (N c),
                     P := average (nprev c) (ncur c) (nnext c) (P c),
                     Z := average (nprev c) (ncur c) (nnext c) (Z c)\<rparr>"
    using c f unfolding uv s by blast
  then show ?thesis
    using len nth t0 by (simp add: ex_second_def)
qed

end
